theory Spec2Isabelle
  imports
    Complex_Main
    "HOL-Library.Product_Lexorder"
    "HOL-Library.Char_ord"
    "HOL-Library.List_Lexorder"
    "HOL-Library.Multiset"
begin

section \<open>Python values, exceptions and dictionaries\<close>

text \<open>
  The simulator (\<^verbatim>\<open>scripts/saved_network_visualize_topology.py\<close>) handles two kinds of
  data: documents decoded from JSON (the topology service's answers and the snapshot
  file) and the tuples it builds itself. \<open>pyval\<close> is the part of Python's value universe
  those data live in: \<open>None\<close>, integers, strings, lists, tuples and dictionaries with
  string keys (booleans and floats do not occur in the topology documents and are left
  out). A dictionary is kept as the list of the insertions that built it, in order: a
  later insertion under a key that is already present replaces its value, so a
  subscript reads the last one. On these values Python's \<open>==\<close> is structural: a tuple
  never equals a list.
\<close>

datatype exn =
  TypeError | KeyError | ValueError | FileNotFoundError | OSError | JSONDecodeError
  | NodeNotFound

datatype pyval =
  PyNone
  | PyInt int
  | PyStr string
  | PyList "pyval list"
  | PyTuple "pyval list"
  | PyDict "(string \<times> pyval) list"

text \<open>\<open>v[k]\<close> for a string key \<open>k\<close>: only a dictionary can be indexed by a string.\<close>

fun getitem :: "pyval \<Rightarrow> string \<Rightarrow> exn + pyval" where
  "getitem (PyDict items) k =
     (case map_of (rev items) k of None \<Rightarrow> Inl KeyError | Some v \<Rightarrow> Inr v)"
| "getitem PyNone k = Inl TypeError"
| "getitem (PyInt n) k = Inl TypeError"
| "getitem (PyStr s) k = Inl TypeError"
| "getitem (PyList xs) k = Inl TypeError"
| "getitem (PyTuple xs) k = Inl TypeError"

text \<open>Lists and dictionaries are unhashable; a tuple is hashable when its members are.\<close>

fun hashable :: "pyval \<Rightarrow> bool" where
  "hashable PyNone = True"
| "hashable (PyInt n) = True"
| "hashable (PyStr s) = True"
| "hashable (PyList xs) = False"
| "hashable (PyDict items) = False"
| "hashable (PyTuple xs) = list_all hashable xs"

text \<open>Truth value of a Python object, as \<open>if not switches\<close> tests it.\<close>

fun truthy :: "pyval \<Rightarrow> bool" where
  "truthy PyNone = False"
| "truthy (PyInt n) = (n \<noteq> 0)"
| "truthy (PyStr s) = (s \<noteq> [])"
| "truthy (PyList xs) = (xs \<noteq> [])"
| "truthy (PyTuple xs) = (xs \<noteq> [])"
| "truthy (PyDict items) = (items \<noteq> [])"

text \<open>Sequencing of computations that may raise: the first exception wins.\<close>

definition and_then :: "exn + 'a \<Rightarrow> ('a \<Rightarrow> exn + 'b) \<Rightarrow> exn + 'b" where
  "and_then m f = (case m of Inl e \<Rightarrow> Inl e | Inr x \<Rightarrow> f x)"

fun traverse :: "('a \<Rightarrow> exn + 'b) \<Rightarrow> 'a list \<Rightarrow> exn + 'b list" where
  "traverse f [] = Inr []"
| "traverse f (x # xs) =
     and_then (f x) (\<lambda>y. and_then (traverse f xs) (\<lambda>ys. Inr (y # ys)))"

subsection \<open>\<open>int(s)\<close> and \<open>str(n)\<close>\<close>

text \<open>
  \<open>int\<close> of a string, base 10, a character being a code point below 256: surrounding
  whitespace is stripped, one sign is allowed, then decimal digits, where single
  underscores may separate digits. Anything else raises \<open>ValueError\<close>, and so does a
  numeral of more than \<open>sys.get_int_max_str_digits()\<close> digits, 4300 unless the
  interpreter is told otherwise.

  The whitespace that \<open>int\<close> strips is tab, line feed, vertical tab, form feed, carriage
  return and space, and of the characters from 128 on the next-line control 0x85 and
  the no-break space 0xA0. The separators 0x1C to 0x1F, which \<open>str.isspace\<close> accepts,
  are not stripped: \<open>int("1\x1f")\<close> raises \<open>ValueError\<close>.
\<close>

definition is_space :: "char \<Rightarrow> bool" where
  "is_space c =
     (c \<in> set [CHR 0x09, CHR 0x0A, CHR 0x0B, CHR 0x0C, CHR 0x0D, CHR 0x20, CHR 0x85, CHR 0xA0])"

definition strip :: "string \<Rightarrow> string" where
  "strip s = rev (dropWhile is_space (rev (dropWhile is_space s)))"

definition is_digit :: "char \<Rightarrow> bool" where
  "is_digit c = (CHR ''0'' \<le> c \<and> c \<le> CHR ''9'')"

definition digit_val :: "char \<Rightarrow> nat" where
  "digit_val c = of_char c - 48"

fun parse_digits :: "string \<Rightarrow> nat \<Rightarrow> nat option" where
  "parse_digits [] acc = Some acc"
| "parse_digits (c # cs) acc =
     (if is_digit c then parse_digits cs (10 * acc + digit_val c)
      else if c = CHR ''_'' then
        (case cs of
           [] \<Rightarrow> None
         | d # ds \<Rightarrow> if is_digit d then parse_digits ds (10 * acc + digit_val d) else None)
      else None)"

definition int_max_str_digits :: nat where
  "int_max_str_digits = 4300"

definition parse_unsigned :: "string \<Rightarrow> nat option" where
  "parse_unsigned s =
     (if int_max_str_digits < length (filter is_digit s) then None
      else case s of
        [] \<Rightarrow> None
      | c # cs \<Rightarrow> if is_digit c then parse_digits cs (digit_val c) else None)"

definition int_of_string :: "string \<Rightarrow> exn + int" where
  "int_of_string s =
     (let t = strip s;
          r = (case t of
                 [] \<Rightarrow> None
               | c # cs \<Rightarrow>
                   if c = CHR ''-'' then map_option (\<lambda>n. - int n) (parse_unsigned cs)
                   else if c = CHR ''+'' then map_option int (parse_unsigned cs)
                   else map_option int (parse_unsigned t))
      in case r of None \<Rightarrow> Inl ValueError | Some n \<Rightarrow> Inr n)"

text \<open>\<open>int(v)\<close> as \<open>initialize_host_mapping\<close> applies it to a host's attachment fields.\<close>

fun py_int :: "pyval \<Rightarrow> exn + int" where
  "py_int (PyInt n) = Inr n"
| "py_int (PyStr s) = int_of_string s"
| "py_int PyNone = Inl TypeError"
| "py_int (PyList xs) = Inl TypeError"
| "py_int (PyTuple xs) = Inl TypeError"
| "py_int (PyDict items) = Inl TypeError"

text \<open>The decimal digits of a counter, as the format string \<open>f"h{host_counter}"\<close> prints it.\<close>

definition digit_char :: "nat \<Rightarrow> char" where
  "digit_char d = char_of (48 + d)"

fun str_of_nat :: "nat \<Rightarrow> string" where
  "str_of_nat n =
     (if n < 10 then [digit_char n] else str_of_nat (n div 10) @ [digit_char (n mod 10)])"

declare str_of_nat.simps [simp del]

section \<open>Link Canonicalizer: \<open>deduplicate_links\<close>\<close>

text \<open>
  A raw link of the topology service, \<open>{src: {dpid, port_no}, dst: {dpid, port_no}}\<close>
  with integer fields; each endpoint is the pair \<open>(dpid, port_no)\<close> the function builds
  from it. A canonical link is the tuple \<open>tuple(sorted((src, dst)))\<close>, and tuples of
  integers are ordered lexicographically.
\<close>

type_synonym endpoint = "int \<times> int"

record raw_link =
  link_src :: endpoint
  link_dst :: endpoint

type_synonym canon_link = "endpoint \<times> endpoint"

text \<open>
  \<open>sorted\<close> on a pair: the sort is stable and compares with \<open><\<close> only, so the two
  members change places exactly when the second is smaller than the first.
\<close>

definition sorted_pair :: "endpoint \<Rightarrow> endpoint \<Rightarrow> canon_link" where
  "sorted_pair a b = (if b < a then (b, a) else (a, b))"

text \<open>
  The loop of \<open>deduplicate_links\<close> fills the set \<open>unique_links\<close>. The function returns
  \<open>list(unique_links)\<close>, an enumeration of that set in the order of Python's set
  iteration, which the language leaves unspecified: the model returns the set, and a
  caller that needs the list takes any enumeration of it.
\<close>

definition deduplicate_links :: "raw_link list \<Rightarrow> canon_link set" where
  "deduplicate_links links =
     fold (\<lambda>link unique_links. insert (sorted_pair (link_src link) (link_dst link)) unique_links)
       links {}"

definition swap_endpoints :: "raw_link \<Rightarrow> raw_link" where
  "swap_endpoints link = \<lparr>link_src = link_dst link, link_dst = link_src link\<rparr>"

section \<open>Snapshot Store: \<open>save_snapshot\<close> and \<open>load_snapshot\<close>\<close>

text \<open>
  \<open>json.dump\<close> and \<open>json.load\<close> are taken at the level of JSON documents: \<open>json_dump\<close>
  is the document \<open>json.dump\<close> writes for a Python value and \<open>json_load\<close> the value
  \<open>json.load\<close> builds from a document; printing a document as text and parsing that
  text back is the library's business and is taken to be lossless. JSON has arrays only,
  so lists and tuples are both written as arrays, and an array is read back as a list.
  The members of an object are inserted into the dictionary in document order, so of
  two members with the same name the later one is the one a subscript reads.
\<close>

datatype json =
  JNull
  | JInt int
  | JStr string
  | JArr "json list"
  | JObj "(string \<times> json) list"

primrec json_dump :: "pyval \<Rightarrow> json" where
  "json_dump PyNone = JNull"
| "json_dump (PyInt n) = JInt n"
| "json_dump (PyStr s) = JStr s"
| "json_dump (PyList xs) = JArr (map json_dump xs)"
| "json_dump (PyTuple xs) = JArr (map json_dump xs)"
| "json_dump (PyDict items) = JObj (map (map_prod id json_dump) items)"

primrec json_load :: "json \<Rightarrow> pyval" where
  "json_load JNull = PyNone"
| "json_load (JInt n) = PyInt n"
| "json_load (JStr s) = PyStr s"
| "json_load (JArr xs) = PyList (map json_load xs)"
| "json_load (JObj items) = PyDict (map (map_prod id json_load) items)"

text \<open>
  The snapshot file \<open>SNAPSHOT_FILE\<close>: absent, present but not readable, holding text
  that is not JSON, or holding a JSON document.
\<close>

datatype snapshot_file = NoFile | Unreadable | Unparsable | Document json

text \<open>
  \<open>save_snapshot\<close> opens the file for writing, which replaces whatever it held, and
  dumps the dictionary of the three collections.
\<close>

definition save_snapshot :: "pyval \<Rightarrow> pyval \<Rightarrow> pyval \<Rightarrow> snapshot_file \<Rightarrow> snapshot_file" where
  "save_snapshot switches links host_links previous =
     (let snapshot = PyDict [(''switches'', switches), (''links'', links),
                             (''host_links'', host_links)]
      in Document (json_dump snapshot))"

text \<open>
  \<open>load_snapshot\<close> returns the three collections and, in the second component, the
  exception its \<open>except Exception\<close> clause caught and printed, if any. \<open>open\<close> raises
  \<open>FileNotFoundError\<close> on a missing file and another \<open>OSError\<close> on one it cannot read,
  \<open>json.load\<close> raises \<open>JSONDecodeError\<close> on text that is not JSON, and the three
  subscripts raise \<open>KeyError\<close> or \<open>TypeError\<close>.
\<close>

definition load_snapshot :: "snapshot_file \<Rightarrow> (pyval \<times> pyval \<times> pyval) \<times> exn option" where
  "load_snapshot f =
     (let failed = (\<lambda>e. ((PyList [], PyList [], PyList []), Some e)) in
      case f of
        NoFile \<Rightarrow> failed FileNotFoundError
      | Unreadable \<Rightarrow> failed OSError
      | Unparsable \<Rightarrow> failed JSONDecodeError
      | Document doc \<Rightarrow>
          (let snapshot = json_load doc in
           case and_then (getitem snapshot ''switches'') (\<lambda>switches.
                and_then (getitem snapshot ''links'') (\<lambda>links.
                and_then (getitem snapshot ''host_links'') (\<lambda>host_links.
                Inr (switches, links, host_links)))) of
             Inl e \<Rightarrow> failed e
           | Inr loaded \<Rightarrow> (loaded, None)))"

text \<open>
  The caller's test in replay mode: \<open>if not switches: print("No valid snapshot found.
  Please take a snapshot first.")\<close>.
\<close>

definition no_valid_snapshot :: "(pyval \<times> pyval \<times> pyval) \<times> exn option \<Rightarrow> bool" where
  "no_valid_snapshot loaded = (\<not> truthy (fst (fst loaded)))"

text \<open>A value as it comes back from the file: every tuple has become a list.\<close>

primrec tuples_as_lists :: "pyval \<Rightarrow> pyval" where
  "tuples_as_lists PyNone = PyNone"
| "tuples_as_lists (PyInt n) = PyInt n"
| "tuples_as_lists (PyStr s) = PyStr s"
| "tuples_as_lists (PyList xs) = PyList (map tuples_as_lists xs)"
| "tuples_as_lists (PyTuple xs) = PyList (map tuples_as_lists xs)"
| "tuples_as_lists (PyDict items) = PyDict (map (map_prod id tuples_as_lists) items)"

primrec tuple_free :: "pyval \<Rightarrow> bool" where
  "tuple_free PyNone = True"
| "tuple_free (PyInt n) = True"
| "tuple_free (PyStr s) = True"
| "tuple_free (PyList xs) = list_all tuple_free xs"
| "tuple_free (PyTuple xs) = False"
| "tuple_free (PyDict items) = list_all (pred_prod (\<lambda>k. True) tuple_free) items"

text \<open>
  The Python values of the program's typed data: a canonical link is a tuple of two
  \<open>(dpid, port_no)\<close> tuples, and a raw link is the dictionary the topology service sends.
\<close>

definition val_of_endpoint :: "endpoint \<Rightarrow> pyval" where
  "val_of_endpoint p = PyTuple [PyInt (fst p), PyInt (snd p)]"

definition val_of_canon_link :: "canon_link \<Rightarrow> pyval" where
  "val_of_canon_link link = PyTuple [val_of_endpoint (fst link), val_of_endpoint (snd link)]"

definition val_of_raw_link :: "raw_link \<Rightarrow> pyval" where
  "val_of_raw_link link =
     PyDict [(''src'', PyDict [(''dpid'', PyInt (fst (link_src link))),
                               (''port_no'', PyInt (snd (link_src link)))]),
             (''dst'', PyDict [(''dpid'', PyInt (fst (link_dst link))),
                               (''port_no'', PyInt (snd (link_dst link)))])]"

text \<open>
  The load failures: the file is missing or cannot be read, its content is malformed,
  or the parsed document lacks one of the three top-level fields (a document that is
  not an object has no fields).
\<close>

fun has_field :: "json \<Rightarrow> string \<Rightarrow> bool" where
  "has_field (JObj items) k = (k \<in> fst ` set items)"
| "has_field JNull k = False"
| "has_field (JInt n) k = False"
| "has_field (JStr s) k = False"
| "has_field (JArr xs) k = False"

fun load_failure :: "snapshot_file \<Rightarrow> bool" where
  "load_failure NoFile = True"
| "load_failure Unreadable = True"
| "load_failure Unparsable = True"
| "load_failure (Document doc) =
     (\<not> has_field doc ''switches'' \<or> \<not> has_field doc ''links''
      \<or> \<not> has_field doc ''host_links'')"

section \<open>Host Attachment Mapper: \<open>initialize_host_mapping\<close> and \<open>filter_host_links\<close>\<close>

text \<open>
  A raw host as \<open>fetch_hosts\<close> builds it: the MAC is a key of the hosts document, the
  two attachment fields are whatever the document holds (the controller sends numeric
  strings). A host link is the dictionary the mappers append; \<open>add_link\<close> later appends
  dictionaries without the \<open>host_mac\<close> key, hence the option.
\<close>

record raw_host =
  mac :: string
  attached_switch :: pyval
  attached_port :: pyval

record host_link =
  host_name :: string
  host_mac :: "string option"
  switch_dpid :: int
  port_no :: int

text \<open>
  \<open>switch_ports\<close>, a dictionary from a switch id to the set of its ports that carry a
  switch-to-switch link. The link argument stays a Python value, since the program
  passes it raw links in real-time mode and canonical links in snapshot mode; every
  subscript, membership test and \<open>add\<close> raises as Python's does.
\<close>

type_synonym switch_ports = "pyval \<rightharpoonup> pyval set"

definition getitem2 :: "pyval \<Rightarrow> string \<Rightarrow> string \<Rightarrow> exn + pyval" where
  "getitem2 v k1 k2 = and_then (getitem v k1) (\<lambda>inner. getitem inner k2)"

text \<open>\<open>if dpid not in switch_ports: switch_ports[dpid] = set()\<close>\<close>

definition ensure_switch :: "switch_ports \<Rightarrow> pyval \<Rightarrow> exn + switch_ports" where
  "ensure_switch sp dpid =
     (if \<not> hashable dpid then Inl TypeError
      else if sp dpid = None then Inr (sp(dpid \<mapsto> {})) else Inr sp)"

text \<open>\<open>switch_ports[dpid].add(port)\<close>\<close>

definition add_port :: "switch_ports \<Rightarrow> pyval \<Rightarrow> pyval \<Rightarrow> exn + switch_ports" where
  "add_port sp dpid port =
     (if \<not> hashable dpid then Inl TypeError
      else case sp dpid of
        None \<Rightarrow> Inl KeyError
      | Some ports \<Rightarrow>
          if hashable port then Inr (sp(dpid \<mapsto> insert port ports)) else Inl TypeError)"

text \<open>The first loop, shared word for word by the two mappers.\<close>

fun collect_switch_ports :: "pyval list \<Rightarrow> switch_ports \<Rightarrow> exn + switch_ports" where
  "collect_switch_ports [] sp = Inr sp"
| "collect_switch_ports (link # rest) sp =
     and_then (getitem2 link ''src'' ''dpid'') (\<lambda>src_dpid.
     and_then (getitem2 link ''src'' ''port_no'') (\<lambda>src_port.
     and_then (getitem2 link ''dst'' ''dpid'') (\<lambda>dst_dpid.
     and_then (getitem2 link ''dst'' ''port_no'') (\<lambda>dst_port.
     and_then (ensure_switch sp src_dpid) (\<lambda>sp1.
     and_then (ensure_switch sp1 dst_dpid) (\<lambda>sp2.
     and_then (add_port sp2 src_dpid src_port) (\<lambda>sp3.
     and_then (add_port sp3 dst_dpid dst_port) (\<lambda>sp4.
     collect_switch_ports rest sp4))))))))"

text \<open>
  The sort key \<open>(int(h["attached_switch"]), int(h["attached_port"]))\<close>. \<open>sorted\<close> first
  computes the key of every host, in list order, and then sorts stably by these keys.
\<close>

definition host_key :: "raw_host \<Rightarrow> exn + (int \<times> int)" where
  "host_key h =
     and_then (py_int (attached_switch h)) (\<lambda>switch_id.
     and_then (py_int (attached_port h)) (\<lambda>port. Inr (switch_id, port)))"

definition sorted_hosts :: "raw_host list \<Rightarrow> exn + raw_host list" where
  "sorted_hosts hosts =
     and_then (traverse host_key hosts) (\<lambda>keys.
     Inr (map snd (sort_key fst (zip keys hosts))))"

text \<open>
  The second loop of \<open>initialize_host_mapping\<close>: a host on a port that carries a
  switch-to-switch link is skipped (\<open>continue\<close>), every other host takes the next name.
\<close>

fun map_hosts :: "switch_ports \<Rightarrow> raw_host list \<Rightarrow> nat \<Rightarrow> exn + host_link list" where
  "map_hosts sp [] host_counter = Inr []"
| "map_hosts sp (host # rest) host_counter =
     and_then (py_int (attached_switch host)) (\<lambda>switch_id.
     and_then (py_int (attached_port host)) (\<lambda>port.
       if (case sp (PyInt switch_id) of None \<Rightarrow> False | Some ports \<Rightarrow> PyInt port \<in> ports)
       then map_hosts sp rest host_counter
       else and_then (map_hosts sp rest (host_counter + 1)) (\<lambda>host_links.
            Inr (\<lparr>host_name = ''h'' @ str_of_nat host_counter, host_mac = Some (mac host),
                  switch_dpid = switch_id, port_no = port\<rparr> # host_links))))"

definition initialize_host_mapping :: "pyval list \<Rightarrow> raw_host list \<Rightarrow> exn + host_link list" where
  "initialize_host_mapping links hosts =
     and_then (collect_switch_ports links Map.empty) (\<lambda>sp.
     and_then (sorted_hosts hosts) (\<lambda>ordered. map_hosts sp ordered 1))"

text \<open>
  The second loop of \<open>filter_host_links\<close>, which states the same test the other way
  round: \<open>if switch_id not in switch_ports or port_no not in switch_ports[switch_id]\<close>.
\<close>

fun filter_hosts :: "switch_ports \<Rightarrow> raw_host list \<Rightarrow> nat \<Rightarrow> exn + host_link list" where
  "filter_hosts sp [] host_counter = Inr []"
| "filter_hosts sp (host # rest) host_counter =
     and_then (py_int (attached_switch host)) (\<lambda>switch_id.
     and_then (py_int (attached_port host)) (\<lambda>port.
       if (case sp (PyInt switch_id) of None \<Rightarrow> True | Some ports \<Rightarrow> PyInt port \<notin> ports)
       then and_then (filter_hosts sp rest (host_counter + 1)) (\<lambda>host_links.
            Inr (\<lparr>host_name = ''h'' @ str_of_nat host_counter, host_mac = Some (mac host),
                  switch_dpid = switch_id, port_no = port\<rparr> # host_links))
       else filter_hosts sp rest host_counter))"

definition filter_host_links :: "pyval list \<Rightarrow> raw_host list \<Rightarrow> exn + host_link list" where
  "filter_host_links links hosts =
     and_then (collect_switch_ports links Map.empty) (\<lambda>sp.
     and_then (sorted_hosts hosts) (\<lambda>ordered. filter_hosts sp ordered 1))"

text \<open>The names \<open>h1\<close>, \<open>h2\<close>, ... from a given counter on.\<close>

definition host_names_from :: "nat \<Rightarrow> nat \<Rightarrow> string list" where
  "host_names_from host_counter n = map (\<lambda>i. ''h'' @ str_of_nat i) [host_counter ..< host_counter + n]"

text \<open>
  Notions used to state what the mappers return: the parsed sort key of a host, the
  test of the second loop on a parsed host, and the records given to a list of hosts
  that all take a name.
\<close>

definition key_of :: "raw_host \<Rightarrow> int \<times> int" where
  "key_of h = projr (host_key h)"

definition on_switch_port :: "switch_ports \<Rightarrow> raw_host \<Rightarrow> bool" where
  "on_switch_port sp h =
     (case sp (PyInt (fst (key_of h))) of
        None \<Rightarrow> False
      | Some ports \<Rightarrow> PyInt (snd (key_of h)) \<in> ports)"

definition named_links :: "nat \<Rightarrow> raw_host list \<Rightarrow> host_link list" where
  "named_links host_counter hs =
     map (\<lambda>(i, h). \<lparr>host_name = ''h'' @ str_of_nat i, host_mac = Some (mac h),
                     switch_dpid = fst (key_of h), port_no = snd (key_of h)\<rparr>)
       (zip [host_counter ..< host_counter + length hs] hs)"

section \<open>Snapshot mode: capturing a snapshot\<close>

text \<open>
  The Python values of the collections that snapshot mode saves.
\<close>

definition val_of_host_link :: "host_link \<Rightarrow> pyval" where
  "val_of_host_link hl =
     PyDict ([(''host_name'', PyStr (host_name hl))]
             @ (case host_mac hl of None \<Rightarrow> [] | Some m \<Rightarrow> [(''host_mac'', PyStr m)])
             @ [(''switch_dpid'', PyInt (switch_dpid hl)), (''port_no'', PyInt (port_no hl))])"

text \<open>\<open>list(s)\<close> for a set \<open>s\<close>: some enumeration of its members, each once.\<close>

definition list_of_set :: "'a set \<Rightarrow> 'a list \<Rightarrow> bool" where
  "list_of_set s xs = (set xs = s \<and> distinct xs)"

text \<open>
  The capture step of snapshot mode in \<open>__main__\<close>, after the two fetches:
  \<open>deduplicated_links\<close> is the list \<open>deduplicate_links(links)\<close> returned, the global
  \<open>initial_host_mapping\<close> is passed in and returned, and the file is passed in and
  returned. No exception is caught here, so one raised by \<open>initialize_host_mapping\<close>
  ends the program.
\<close>

definition capture_snapshot ::
  "int list \<Rightarrow> raw_host list \<Rightarrow> canon_link list \<Rightarrow> host_link list option \<Rightarrow> snapshot_file
   \<Rightarrow> exn + (host_link list option \<times> snapshot_file)" where
  "capture_snapshot switches hosts deduplicated_links initial_host_mapping previous =
     and_then
       (case initial_host_mapping of
          None \<Rightarrow> initialize_host_mapping (map val_of_canon_link deduplicated_links) hosts
        | Some mapping \<Rightarrow> Inr mapping)
       (\<lambda>host_links.
          Inr (Some host_links,
               save_snapshot (PyList (map PyInt switches))
                 (PyList (map val_of_canon_link deduplicated_links))
                 (PyList (map val_of_host_link host_links)) previous))"

section \<open>Topology Graph Model\<close>

subsection \<open>The graph object\<close>

text \<open>
  A node of the graph is a switch id (a Python integer) or a host name (a Python
  string); the two never compare equal. The \<open>networkx.Graph\<close> object \<open>G\<close> is kept as its
  nodes and its undirected edges, both in insertion order; an edge is stored once, in
  the orientation it was added with. Node and edge attributes are not used by the
  program.
\<close>

datatype node = Switch int | Host string

record graph =
  nodes :: "node list"
  edges :: "(node \<times> node) list"

definition node_set :: "graph \<Rightarrow> node set" where
  "node_set G = set (nodes G)"

definition edge_set :: "graph \<Rightarrow> node set set" where
  "edge_set G = (\<lambda>(u, v). {u, v}) ` set (edges G)"

definition clear :: "graph \<Rightarrow> graph" where
  "clear G = \<lparr>nodes = [], edges = []\<rparr>"

definition has_node :: "graph \<Rightarrow> node \<Rightarrow> bool" where
  "has_node G n = (n \<in> set (nodes G))"

definition has_edge :: "graph \<Rightarrow> node \<Rightarrow> node \<Rightarrow> bool" where
  "has_edge G u v = ((u, v) \<in> set (edges G) \<or> (v, u) \<in> set (edges G))"

definition add_node :: "node \<Rightarrow> graph \<Rightarrow> graph" where
  "add_node n G = (if n \<in> set (nodes G) then G else G\<lparr>nodes := nodes G @ [n]\<rparr>)"

definition add_edge :: "node \<Rightarrow> node \<Rightarrow> graph \<Rightarrow> graph" where
  "add_edge u v G =
     (let G1 = add_node v (add_node u G)
      in if has_edge G1 u v then G1 else G1\<lparr>edges := edges G1 @ [(u, v)]\<rparr>)"

text \<open>\<open>G.remove_edge(u, v)\<close>, which the program calls only after \<open>G.has_edge(u, v)\<close>.\<close>

definition remove_edge :: "node \<Rightarrow> node \<Rightarrow> graph \<Rightarrow> graph" where
  "remove_edge u v G = G\<lparr>edges := filter (\<lambda>e. e \<noteq> (u, v) \<and> e \<noteq> (v, u)) (edges G)\<rparr>"

definition neighbors :: "graph \<Rightarrow> node \<Rightarrow> node list" where
  "neighbors G n =
     map snd (filter (\<lambda>e. fst e = n) (edges G)) @ map fst (filter (\<lambda>e. snd e = n) (edges G))"

text \<open>
  \<open>nx.has_path(G, source, target)\<close>: whether some path joins the two nodes. The search
  of the library is modelled by the closure of the visited nodes under \<open>neighbors\<close>,
  computed round by round until a round finds nothing new. The library raises
  \<open>NodeNotFound\<close> when one of the two nodes is not in the graph.
\<close>

definition frontier :: "graph \<Rightarrow> node list \<Rightarrow> node list" where
  "frontier G visited =
     remdups (filter (\<lambda>v. v \<notin> set visited) (concat (map (neighbors G) visited)))"

function reach :: "graph \<Rightarrow> node list \<Rightarrow> node list" where
  "reach G visited =
     (if frontier G visited = [] then visited else reach G (visited @ frontier G visited))"
  by pat_completeness auto
termination
proof (relation "measure (\<lambda>(G, visited). card ((fst ` set (edges G) \<union> snd ` set (edges G)) - set visited))")
  show "wf (measure (\<lambda>(G, visited). card ((fst ` set (edges G) \<union> snd ` set (edges G)) - set visited)))"
    by simp
next
  fix G :: graph and visited :: "node list"
  let ?V = "fst ` set (edges G) \<union> snd ` set (edges G)"
  assume "frontier G visited \<noteq> []"
  then obtain v where v: "v \<in> set (frontier G visited)"
    by (cases "frontier G visited") auto
  then have "v \<notin> set visited" and "v \<in> ?V"
    by (force simp: frontier_def neighbors_def)+
  then have "?V - set (visited @ frontier G visited) \<subset> ?V - set visited"
    using v by auto
  then have "card (?V - set (visited @ frontier G visited)) < card (?V - set visited)"
    by (intro psubset_card_mono) auto
  then show "((G, visited @ frontier G visited), (G, visited))
      \<in> measure (\<lambda>(G, visited). card ((fst ` set (edges G) \<union> snd ` set (edges G)) - set visited))"
    by simp
qed

declare reach.simps [simp del]

definition has_path :: "graph \<Rightarrow> node \<Rightarrow> node \<Rightarrow> exn + bool" where
  "has_path G source target =
     (if has_node G source \<and> has_node G target
      then Inr (target \<in> set (reach G [source])) else Inl NodeNotFound)"

subsection \<open>Tracked collections and endpoint tokens\<close>

text \<open>
  A tracked switch link is a pair of \<open>(switch, port)\<close> pairs whose port may be \<open>None\<close>:
  the snapshot file allows a null port and \<open>add_link\<close> appends one. The ground-truth
  switch links \<open>initial_switch_links\<close> are canonical links, with both ports present.
\<close>

type_synonym port_ref = "int \<times> int option"

type_synonym switch_link = "port_ref \<times> port_ref"

text \<open>
  The first lines of \<open>remove_link\<close> and \<open>add_link\<close>: a token that starts with \<open>h\<close> is a
  host name, any other token goes through \<open>int\<close>, whose \<open>ValueError\<close> the function
  catches.
\<close>

definition startswith_h :: "string \<Rightarrow> bool" where
  "startswith_h s = (case s of [] \<Rightarrow> False | c # cs \<Rightarrow> c = CHR ''h'')"

definition parse_node :: "string \<Rightarrow> exn + node" where
  "parse_node token =
     (if startswith_h token then Inr (Host token)
      else and_then (int_of_string token) (\<lambda>n. Inr (Switch n)))"

text \<open>What the operations print.\<close>

datatype message =
  LinkRemoved node node
  | LinkDoesNotExist
  | LinkAdded node node
  | NotConnected node node
  | InvalidInput

subsection \<open>\<open>visualize_topology\<close>: rebuilding the graph\<close>

text \<open>
  The part of \<open>visualize_topology\<close> that acts on \<open>G\<close>; the drawing calls that follow
  only read the graph. The last loop runs over the nodes present when it starts and
  re-adds the host nodes that have no neighbour.
\<close>

definition isolated_host :: "graph \<Rightarrow> node \<Rightarrow> bool" where
  "isolated_host G n =
     (case n of Switch k \<Rightarrow> False | Host s \<Rightarrow> startswith_h s \<and> neighbors G n = [])"

definition visualize_topology ::
  "graph \<Rightarrow> int list \<Rightarrow> switch_link list \<Rightarrow> host_link list \<Rightarrow> graph" where
  "visualize_topology G switches links host_links =
     (let G0 = clear G;
          G1 = fold add_node (map Switch switches) G0;
          graph_links = map (\<lambda>link. (Switch (fst (fst link)), Switch (fst (snd link)))) links;
          G2 = fold (\<lambda>(u, v). add_edge u v) graph_links G1;
          G3 = fold (\<lambda>host_link g.
                  add_edge (Switch (switch_dpid host_link)) (Host (host_name host_link))
                    (add_node (Host (host_name host_link)) g)) host_links G2
      in fold (\<lambda>n g. if isolated_host g n then add_node n g else g) (nodes G3) G3)"

subsection \<open>\<open>remove_link\<close>\<close>

text \<open>
  The function updates \<open>G\<close>, \<open>links\<close> and \<open>host_links\<close> in place; the model returns
  them after the message printed.
\<close>

definition remove_link ::
  "graph \<Rightarrow> string \<Rightarrow> string \<Rightarrow> int list \<Rightarrow> switch_link list \<Rightarrow> host_link list \<Rightarrow> string list
   \<Rightarrow> message \<times> graph \<times> switch_link list \<times> host_link list" where
  "remove_link G source destination switches links host_links all_hosts =
     (case and_then (parse_node source) (\<lambda>src.
           and_then (parse_node destination) (\<lambda>dst. Inr (src, dst))) of
        Inl e \<Rightarrow> (InvalidInput, G, links, host_links)
      | Inr (src, dst) \<Rightarrow>
          if has_edge G src dst then
            (let G1 = remove_edge src dst G in
             case (src, dst) of
               (Switch a, Switch b) \<Rightarrow>
                 (let links1 = filter (\<lambda>link. \<not> ({fst (fst link), fst (snd link)} = {a, b})) links
                  in (LinkRemoved src dst, visualize_topology G1 switches links1 host_links,
                      links1, host_links))
             | _ \<Rightarrow>
                 (let host_links1 = filter (\<lambda>link.
                        \<not> ((Host (host_name link) = src \<and> Switch (switch_dpid link) = dst)
                           \<or> (Host (host_name link) = dst \<and> Switch (switch_dpid link) = src)))
                        host_links;
                      G2 = (case src of
                              Host s \<Rightarrow> if s \<in> set all_hosts then add_node src G1 else G1
                            | Switch k \<Rightarrow> G1);
                      G3 = (case dst of
                              Host s \<Rightarrow> if s \<in> set all_hosts then add_node dst G2 else G2
                            | Switch k \<Rightarrow> G2)
                  in (LinkRemoved src dst, visualize_topology G3 switches links host_links1,
                      links, host_links1)))
          else (LinkDoesNotExist, G, links, host_links))"

subsection \<open>\<open>add_link\<close>\<close>

text \<open>
  The two validity loops. Each stops at the first matching fact and sets
  \<open>is_valid_link\<close> and \<open>port_no\<close> together, so the model returns the port of the first
  match, or \<open>None\<close> when the loop ends with \<open>is_valid_link\<close> still false.
\<close>

fun find_switch_link :: "canon_link list \<Rightarrow> int \<Rightarrow> int \<Rightarrow> int option" where
  "find_switch_link [] src dst = None"
| "find_switch_link (link # rest) src dst =
     (if {fst (fst link), fst (snd link)} = {src, dst}
      then Some (if fst (fst link) = src then snd (fst link) else snd (snd link))
      else find_switch_link rest src dst)"

fun find_host_link :: "host_link list \<Rightarrow> node \<Rightarrow> node \<Rightarrow> int option" where
  "find_host_link [] src dst = None"
| "find_host_link (host_link # rest) src dst =
     (if (Host (host_name host_link) = src \<and> Switch (switch_dpid host_link) = dst)
         \<or> (Host (host_name host_link) = dst \<and> Switch (switch_dpid host_link) = src)
      then Some (port_no host_link)
      else find_host_link rest src dst)"

text \<open>
  \<open>initial_switch_links\<close> is the global of that name, \<open>None\<close> until real-time mode has
  captured it; iterating over \<open>None\<close> raises \<open>TypeError\<close>, which the function does not
  catch. For two host names no snapshot entry can match, since \<open>switch_dpid\<close> holds an
  integer, so that pair always takes the rejection branch.
\<close>

definition add_link ::
  "graph \<Rightarrow> string \<Rightarrow> string \<Rightarrow> int list \<Rightarrow> switch_link list \<Rightarrow> host_link list
   \<Rightarrow> host_link list \<Rightarrow> canon_link list option
   \<Rightarrow> exn + (message \<times> graph \<times> switch_link list \<times> host_link list)" where
  "add_link G source destination switches links host_links host_links_snapshot
       initial_switch_links =
     (case and_then (parse_node source) (\<lambda>src.
           and_then (parse_node destination) (\<lambda>dst. Inr (src, dst))) of
        Inl e \<Rightarrow> Inr (InvalidInput, G, links, host_links)
      | Inr (src, dst) \<Rightarrow>
          (let rejected = Inr (NotConnected src dst, G, links, host_links);
               appended = (\<lambda>name dpid port.
                 let G1 = add_edge src dst G;
                     host_links1 = host_links @ [\<lparr>host_name = name, host_mac = None,
                                                  switch_dpid = dpid, port_no = port\<rparr>]
                 in Inr (LinkAdded src dst, visualize_topology G1 switches links host_links1,
                         links, host_links1))
           in case (src, dst) of
             (Switch a, Switch b) \<Rightarrow>
               (case initial_switch_links of
                  None \<Rightarrow> Inl TypeError
                | Some facts \<Rightarrow>
                    (case find_switch_link facts a b of
                       None \<Rightarrow> rejected
                     | Some port \<Rightarrow>
                         (let G1 = add_edge src dst G;
                              links1 = links @ [((a, Some port), (b, None))]
                          in Inr (LinkAdded src dst,
                                  visualize_topology G1 switches links1 host_links,
                                  links1, host_links))))
           | (Host s, Switch b) \<Rightarrow>
               (case find_host_link host_links_snapshot src dst of
                  None \<Rightarrow> rejected | Some port \<Rightarrow> appended s b port)
           | (Switch a, Host t) \<Rightarrow>
               (case find_host_link host_links_snapshot src dst of
                  None \<Rightarrow> rejected | Some port \<Rightarrow> appended t a port)
           | (Host s, Host t) \<Rightarrow> rejected))"

text \<open>
  The ground-truth test in the words of the specification: a switch pair is present
  when some fact has that unordered pair of switch ids, a host and a switch are present
  when some snapshot entry joins that host to that switch.
\<close>

definition in_ground_truth :: "canon_link list \<Rightarrow> host_link list \<Rightarrow> node \<Rightarrow> node \<Rightarrow> bool" where
  "in_ground_truth facts host_links_snapshot src dst =
     (case (src, dst) of
        (Switch a, Switch b) \<Rightarrow> (\<exists>link \<in> set facts. {fst (fst link), fst (snd link)} = {a, b})
      | (Host s, Switch b) \<Rightarrow>
          (\<exists>hl \<in> set host_links_snapshot. host_name hl = s \<and> switch_dpid hl = b)
      | (Switch a, Host t) \<Rightarrow>
          (\<exists>hl \<in> set host_links_snapshot. host_name hl = t \<and> switch_dpid hl = a)
      | (Host s, Host t) \<Rightarrow> False)"

text \<open>
  The matching fact of a link-up is the first fact the validity loop accepts; the port
  a switch fact records for a switch is the port of that switch's endpoint.
\<close>

definition matching_switch_fact :: "canon_link list \<Rightarrow> int \<Rightarrow> int \<Rightarrow> canon_link option" where
  "matching_switch_fact facts a b =
     List.find (\<lambda>link. {fst (fst link), fst (snd link)} = {a, b}) facts"

definition matching_host_fact :: "host_link list \<Rightarrow> string \<Rightarrow> int \<Rightarrow> host_link option" where
  "matching_host_fact host_links_snapshot s b =
     List.find (\<lambda>hl. host_name hl = s \<and> switch_dpid hl = b) host_links_snapshot"

definition fact_port :: "canon_link \<Rightarrow> int \<Rightarrow> int" where
  "fact_port entry a = (if fst (fst entry) = a then snd (fst entry) else snd (snd entry))"

text \<open>
  A tracked switch link carries the port information of a fact when its two endpoints
  are the fact's two endpoints, each with the port the fact records.
\<close>

definition carries_ports_of :: "switch_link \<Rightarrow> canon_link \<Rightarrow> bool" where
  "carries_ports_of link entry =
     ({fst link, snd link}
        = {(fst (fst entry), Some (snd (fst entry))), (fst (snd entry), Some (snd (snd entry)))})"

text \<open>
  The edge a tracked record stands for, and the state in which the replay loop calls
  the two operations: the graph is the one last drawn from the tracked collections.
\<close>

definition link_edge :: "switch_link \<Rightarrow> node set" where
  "link_edge link = {Switch (fst (fst link)), Switch (fst (snd link))}"

definition host_edge :: "host_link \<Rightarrow> node set" where
  "host_edge hl = {Switch (switch_dpid hl), Host (host_name hl)}"

definition drawn :: "graph \<Rightarrow> int list \<Rightarrow> switch_link list \<Rightarrow> host_link list \<Rightarrow> bool" where
  "drawn G switches links host_links = (G = visualize_topology G switches links host_links)"

subsection \<open>\<open>pingall\<close>\<close>

text \<open>
  Python's floats are IEEE 754 binary64 numbers, and each arithmetic operation returns
  the exact result rounded to the nearest such number, ties going to the even
  significand. A finite binary64 number is a rational, so the model computes with
  rationals and rounds after each operation. \<open>binary64 x\<close> is the double nearest to \<open>x\<close>:
  when \<open>2 powi e \<le> \<bar>x\<bar> < 2 powi (e + 1)\<close> it is the multiple of \<open>2 powi (e - 52)\<close>
  nearest to \<open>x\<close>, and below the normal range (\<open>e < - 1022\<close>) the spacing stays at
  \<open>2 powi (- 1074)\<close>. Overflow to infinity (from \<open>2 powi 1024\<close> on) is not modelled; the
  values of \<open>pingall\<close> stay below 128.

  \<open>bit_length\<close> is \<open>int.bit_length\<close>, the number of binary digits of a natural number.
\<close>

fun bit_length :: "nat \<Rightarrow> nat" where
  "bit_length n = (if n = 0 then 0 else Suc (bit_length (n div 2)))"

declare bit_length.simps [simp del]

text \<open>
  The exponent \<open>e\<close> with \<open>2 powi e \<le> x < 2 powi (e + 1)\<close>, for a positive rational \<open>x\<close>:
  the difference of the bit lengths of numerator and denominator, or one less.
\<close>

definition floor_log2 :: "rat \<Rightarrow> int" where
  "floor_log2 x =
     (let (p, q) = quotient_of x;
          d = int (bit_length (nat p)) - int (bit_length (nat q))
      in if 2 powi d \<le> x then d else d - 1)"

text \<open>The integer nearest to \<open>x\<close>, the even one of the two when \<open>x\<close> lies half-way.\<close>

definition round_half_even :: "rat \<Rightarrow> int" where
  "round_half_even x =
     (let f = \<lfloor>x\<rfloor>; r = x - of_int f
      in if r < 1 / 2 then f else if 1 / 2 < r then f + 1 else if even f then f else f + 1)"

definition binary64 :: "rat \<Rightarrow> rat" where
  "binary64 x =
     (if x = 0 then 0
      else let k = min (52 - floor_log2 \<bar>x\<bar>) 1074
           in of_int (round_half_even (x * 2 powi k)) / 2 powi k)"

text \<open>
  The report of \<open>pingall\<close>: one printed row per source host with the destinations it
  reaches, the two counters, and the packet loss, a float (or the integer 0).
\<close>

record ping_report =
  rows :: "(string \<times> string list) list"
  successful_pings :: nat
  total_pings :: int
  packet_loss_percentage :: rat

text \<open>
  The test of the inner loop, \<open>G.has_node(src) and G.has_node(dst) and
  nx.has_path(G, src, dst)\<close>, evaluated from left to right.
\<close>

definition ping_ok :: "graph \<Rightarrow> string \<Rightarrow> string \<Rightarrow> bool" where
  "ping_ok G src dst =
     (has_node G (Host src) \<and> has_node G (Host dst)
      \<and> has_path G (Host src) (Host dst) = Inr True)"

fun ping_row :: "graph \<Rightarrow> string \<Rightarrow> string list \<Rightarrow> string list \<Rightarrow> nat \<Rightarrow> string list \<times> nat" where
  "ping_row G src [] reachable successful = (reachable, successful)"
| "ping_row G src (dst # rest) reachable successful =
     (if src \<noteq> dst then
        if ping_ok G src dst then ping_row G src rest (reachable @ [dst]) (successful + 1)
        else ping_row G src rest reachable successful
      else ping_row G src rest reachable successful)"

fun ping_rows ::
  "graph \<Rightarrow> string list \<Rightarrow> string list \<Rightarrow> nat \<Rightarrow> (string \<times> string list) list \<times> nat" where
  "ping_rows G [] hosts successful = ([], successful)"
| "ping_rows G (src # rest) hosts successful =
     (let (reachable, successful1) = ping_row G src hosts [] successful;
          (printed, successful2) = ping_rows G rest hosts successful1
      in ((src, reachable) # printed, successful2))"

text \<open>
  \<open>successful_pings / total_pings\<close> is the true division of two integers, which returns
  the double nearest to the exact quotient; the product with 100 and the difference
  from 100 are float operations, the integer 100 being converted exactly.
\<close>

definition pingall :: "graph \<Rightarrow> string list \<Rightarrow> ping_report" where
  "pingall G all_hosts =
     (let hosts = sort all_hosts;
          total = int (length hosts) * (int (length hosts) - 1);
          (printed, successful) = ping_rows G hosts hosts 0
      in \<lparr>rows = printed, successful_pings = successful, total_pings = total,
          packet_loss_percentage =
            (if total > 0
             then binary64 (100 - binary64 (binary64 (of_nat successful / of_int total) * 100))
             else 0)\<rparr>)"

text \<open>
  The last line printed shows the loss with \<open>{packet_loss_percentage:.2f}\<close>: the decimal
  with two fractional digits nearest to the value, ties going to the even digit.
  \<open>format_2f x\<close> is that decimal counted in hundredths.
\<close>

definition format_2f :: "rat \<Rightarrow> int" where
  "format_2f x = round_half_even (x * 100)"

text \<open>
  Path existence in the words of the specification: both nodes are in the graph and
  some sequence of undirected edges leads from one to the other.
\<close>

definition adjacency :: "graph \<Rightarrow> (node \<times> node) set" where
  "adjacency G = {(u, v). has_edge G u v}"

definition path_exists :: "graph \<Rightarrow> node \<Rightarrow> node \<Rightarrow> bool" where
  "path_exists G u v = (has_node G u \<and> has_node G v \<and> (u, v) \<in> (adjacency G)\<^sup>*)"

definition successful_pairs :: "graph \<Rightarrow> string list \<Rightarrow> (string \<times> string) list" where
  "successful_pairs G hosts =
     filter (\<lambda>(src, dst). src \<noteq> dst \<and> path_exists G (Host src) (Host dst))
       (List.product hosts hosts)"

section \<open>Properties of the link canonicalizer\<close>

lemma fold_insert_image:
  "fold (\<lambda>x S. insert (f x) S) xs A = f ` set xs \<union> A"
  by (induction xs arbitrary: A) auto

lemma deduplicate_links_image:
  "deduplicate_links links = (\<lambda>link. sorted_pair (link_src link) (link_dst link)) ` set links"
  by (simp add: deduplicate_links_def fold_insert_image)

lemma sorted_pair_commute: "sorted_pair a b = sorted_pair b a"
  by (auto simp: sorted_pair_def)

text \<open>
  C5. Reversing the endpoints of any raw link of the list leaves the canonical set
  unchanged, and the two reports \<open>(1,1) \<rightarrow> (2,1)\<close> and \<open>(2,1) \<rightarrow> (1,1)\<close> of one connection
  canonicalize to the single link between switch 1 port 1 and switch 2 port 1.
\<close>

theorem deduplicate_links_direction:
  "deduplicate_links (before @ swap_endpoints link # after)
     = deduplicate_links (before @ link # after)
   \<and> deduplicate_links
       [\<lparr>link_src = (1, 1), link_dst = (2, 1)\<rparr>, \<lparr>link_src = (2, 1), link_dst = (1, 1)\<rparr>]
     = {((1, 1), (2, 1))}"
proof
  have "sorted_pair (link_src (swap_endpoints link)) (link_dst (swap_endpoints link))
        = sorted_pair (link_src link) (link_dst link)"
    by (simp add: swap_endpoints_def sorted_pair_commute)
  then show "deduplicate_links (before @ swap_endpoints link # after)
     = deduplicate_links (before @ link # after)"
    by (simp add: deduplicate_links_image)
next
  show "deduplicate_links
       [\<lparr>link_src = (1, 1), link_dst = (2, 1)\<rparr>, \<lparr>link_src = (2, 1), link_dst = (1, 1)\<rparr>]
     = {((1, 1), (2, 1))}"
    by (simp add: deduplicate_links_def sorted_pair_def)
qed

section \<open>Properties of the snapshot store\<close>

lemma json_roundtrip: "json_load (json_dump v) = tuples_as_lists v"
  by (induction v) (auto simp: prod.map_comp comp_def map_prod_def split_beta)

lemma tuples_as_lists_tuple_free: "tuple_free v \<Longrightarrow> tuples_as_lists v = v"
proof (induction v)
  case (PyList xs)
  then show ?case by (simp add: list_all_iff map_idI)
next
  case (PyDict items)
  have "map (map_prod id tuples_as_lists) items = items"
  proof (rule map_idI)
    fix kv assume kv: "kv \<in> set items"
    obtain k v where [simp]: "kv = (k, v)" by (cases kv)
    from kv PyDict.prems have "tuple_free v" by (auto simp: list_all_iff)
    moreover from kv have "v \<in> Basic_BNFs.snds kv" by simp
    ultimately have "tuples_as_lists v = v" using PyDict.IH kv by blast
    then show "map_prod id tuples_as_lists kv = kv" by simp
  qed
  then show ?case by simp
qed simp_all

lemma getitem_json_load_obj:
  "getitem (json_load (JObj items)) k =
     (case map_of (rev items) k of None \<Rightarrow> Inl KeyError | Some j \<Rightarrow> Inr (json_load j))"
proof -
  have "map_of (map (map_prod id json_load) xs) k = map_option json_load (map_of xs k)" for xs
    by (induction xs) auto
  from this [of "rev items"] show ?thesis by (simp add: rev_map split: option.splits)
qed

lemma getitem_missing_field:
  "\<not> has_field doc k \<Longrightarrow> \<exists>e. getitem (json_load doc) k = Inl e"
proof (cases doc)
  case (JObj items)
  assume "\<not> has_field doc k"
  with JObj have "map_of (rev items) k = None" by (simp add: map_of_eq_None_iff)
  with JObj show ?thesis by (simp add: getitem_json_load_obj del: json_load.simps)
qed simp_all

text \<open>
  C3 (as amended). Loading right after saving succeeds and returns the three saved
  collections with every tuple replaced by the list of its members; collections that
  hold no tuple come back equal to what was saved.
\<close>

theorem load_after_save:
  "load_snapshot (save_snapshot S L H previous)
     = ((tuples_as_lists S, tuples_as_lists L, tuples_as_lists H), None)
   \<and> (tuple_free S \<and> tuple_free L \<and> tuple_free H \<longrightarrow>
        load_snapshot (save_snapshot S L H previous) = ((S, L, H), None))"
proof -
  have "load_snapshot (save_snapshot S L H previous)
     = ((json_load (json_dump S), json_load (json_dump L), json_load (json_dump H)), None)"
    by (simp add: load_snapshot_def save_snapshot_def and_then_def)
  then show ?thesis
    by (simp add: json_roundtrip tuples_as_lists_tuple_free)
qed

theorem load_after_save_witness:
  "tuple_free (PyList [PyInt 1, PyInt 2])
   \<and> tuple_free (PyList [PyList [PyList [PyInt 1, PyInt 1], PyList [PyInt 2, PyNone]]])
   \<and> tuple_free (PyList [PyDict [(''host_name'', PyStr ''h1''), (''switch_dpid'', PyInt 1),
                                   (''port_no'', PyInt 3)]])
   \<and> load_snapshot (save_snapshot
        (PyList [PyInt 1, PyInt 2])
        (PyList [PyList [PyList [PyInt 1, PyInt 1], PyList [PyInt 2, PyNone]]])
        (PyList [PyDict [(''host_name'', PyStr ''h1''), (''switch_dpid'', PyInt 1),
                         (''port_no'', PyInt 3)]])
        NoFile)
     = ((PyList [PyInt 1, PyInt 2],
         PyList [PyList [PyList [PyInt 1, PyInt 1], PyList [PyInt 2, PyNone]]],
         PyList [PyDict [(''host_name'', PyStr ''h1''), (''switch_dpid'', PyInt 1),
                         (''port_no'', PyInt 3)]]), None)"
  using load_after_save
    [of "PyList [PyInt 1, PyInt 2]"
        "PyList [PyList [PyList [PyInt 1, PyInt 1], PyList [PyInt 2, PyNone]]]"
        "PyList [PyDict [(''host_name'', PyStr ''h1''), (''switch_dpid'', PyInt 1),
                         (''port_no'', PyInt 3)]]"
        NoFile]
  by simp

text \<open>
  The claim as stated fails on the links the program itself saves: snapshot mode passes
  the canonical links of \<open>deduplicate_links\<close>, which are tuples, and they are loaded as
  lists.
\<close>

theorem load_after_save_counterexample:
  "fst (load_snapshot (save_snapshot
          (PyList [PyInt 1, PyInt 2])
          (PyList (map val_of_canon_link [((1, 1), (2, 1))]))
          (PyList [])
          NoFile))
     \<noteq> (PyList [PyInt 1, PyInt 2], PyList (map val_of_canon_link [((1, 1), (2, 1))]), PyList [])"
  by (simp add: load_snapshot_def save_snapshot_def and_then_def val_of_canon_link_def
      val_of_endpoint_def)

text \<open>
  C9. On every load failure (missing file, malformed content, or a document lacking
  one of \<open>switches\<close>, \<open>links\<close>, \<open>host_links\<close>) \<open>load_snapshot\<close> returns three empty lists
  together with the exception it caught, and the caller's test reads the result as
  "no valid snapshot". The function has no exceptional result: nothing is raised.
\<close>

theorem load_snapshot_failure:
  "load_failure f \<Longrightarrow>
     (\<exists>e. load_snapshot f = ((PyList [], PyList [], PyList []), Some e))
     \<and> no_valid_snapshot (load_snapshot f)"
proof -
  assume fail: "load_failure f"
  have "\<exists>e. load_snapshot f = ((PyList [], PyList [], PyList []), Some e)"
  proof (cases f)
    case (Document doc)
    let ?get = "\<lambda>k. getitem (json_load doc) k"
    from fail Document consider
      "\<not> has_field doc ''switches''" | "\<not> has_field doc ''links''"
      | "\<not> has_field doc ''host_links''"
      by auto
    then show ?thesis
    proof cases
      case 1
      then obtain e where "?get ''switches'' = Inl e"
        using getitem_missing_field by blast
      with Document show ?thesis by (simp add: load_snapshot_def and_then_def)
    next
      case 2
      then obtain e where "?get ''links'' = Inl e"
        using getitem_missing_field by blast
      with Document show ?thesis
        by (cases "?get ''switches''") (simp_all add: load_snapshot_def and_then_def)
    next
      case 3
      then obtain e where "?get ''host_links'' = Inl e"
        using getitem_missing_field by blast
      with Document show ?thesis
        by (cases "?get ''switches''"; cases "?get ''links''")
           (simp_all add: load_snapshot_def and_then_def)
    qed
  qed (simp_all add: load_snapshot_def)
  then show ?thesis by (auto simp: no_valid_snapshot_def)
qed

theorem load_snapshot_failure_witness:
  "load_failure (Document (JObj [(''switches'', JArr [JInt 1]), (''links'', JArr [])]))
   \<and> load_snapshot (Document (JObj [(''switches'', JArr [JInt 1]), (''links'', JArr [])]))
       = ((PyList [], PyList [], PyList []), Some KeyError)
   \<and> no_valid_snapshot
       (load_snapshot (Document (JObj [(''switches'', JArr [JInt 1]), (''links'', JArr [])])))"
  using load_snapshot_failure
    [of "Document (JObj [(''switches'', JArr [JInt 1]), (''links'', JArr [])])"]
  by (simp add: load_snapshot_def and_then_def)

section \<open>Properties of the host attachment mapper\<close>

lemma and_then_Inr_iff:
  "and_then m f = Inr y \<longleftrightarrow> (\<exists>x. m = Inr x \<and> f x = Inr y)"
  by (cases m) (auto simp: and_then_def)

lemma traverse_Inr_iff:
  "traverse f xs = Inr ys \<longleftrightarrow>
     (\<forall>x\<in>set xs. \<exists>y. f x = Inr y) \<and> ys = map (\<lambda>x. projr (f x)) xs"
  by (induction xs arbitrary: ys) (auto simp: and_then_Inr_iff)

text \<open>Sorting the decorated list and dropping the keys is sorting by the key.\<close>

lemma insort_key_decorated:
  "insort_key fst (k x, x) (map (\<lambda>x. (k x, x)) ys) = map (\<lambda>x. (k x, x)) (insort_key k x ys)"
  by (induction ys) auto

lemma sort_key_decorated:
  "sort_key fst (map (\<lambda>x. (k x, x)) xs) = map (\<lambda>x. (k x, x)) (sort_key k xs)"
  by (induction xs) (auto simp: insort_key_decorated)

lemma zip_map_self: "zip (map k xs) xs = map (\<lambda>x. (k x, x)) xs"
  by (induction xs) auto

lemma sorted_hosts_Inr_iff:
  "sorted_hosts hosts = Inr ordered \<longleftrightarrow>
     (\<forall>h\<in>set hosts. \<exists>key. host_key h = Inr key) \<and> ordered = sort_key key_of hosts"
  by (auto simp: sorted_hosts_def and_then_Inr_iff traverse_Inr_iff zip_map_self
      sort_key_decorated comp_def key_of_def [abs_def])

text \<open>With pairwise distinct keys a stable sort cannot see the order of its input.\<close>

lemma filter_key_singleton:
  "distinct xs \<Longrightarrow> inj_on k (set xs) \<Longrightarrow> a \<in> set xs \<Longrightarrow> filter (\<lambda>x. k a = k x) xs = [a]"
  by (induction xs) (auto simp: inj_on_def filter_empty_conv)

lemma sort_key_permutation:
  assumes perm: "mset ys = mset xs" and keys: "distinct (map k xs)"
  shows "sort_key k ys = sort_key k xs"
proof (rule properties_for_sort_key)
  from keys have dx: "distinct xs" and inj: "inj_on k (set xs)"
    by (auto simp: distinct_map)
  from perm have sets: "set ys = set xs" by (rule mset_eq_setD)
  from perm dx have dy: "distinct ys" by (metis mset_eq_imp_distinct_iff)
  show "mset (sort_key k xs) = mset ys" using perm by simp
  show "sorted (map k (sort_key k xs))" by simp
  fix a assume "a \<in> set (sort_key k xs)"
  then have a: "a \<in> set xs" by simp
  have "filter (\<lambda>x. k a = k x) (sort_key k xs) = [a]"
    using dx inj a by (intro filter_key_singleton) auto
  moreover have "filter (\<lambda>x. k a = k x) ys = [a]"
    using dy inj a sets by (intro filter_key_singleton) auto
  ultimately show "filter (\<lambda>x. k a = k x) (sort_key k xs) = filter (\<lambda>x. k a = k x) ys"
    by simp
qed

lemma py_int_of_host_key:
  "host_key h = Inr key \<Longrightarrow>
     py_int (attached_switch h) = Inr (fst key) \<and> py_int (attached_port h) = Inr (snd key)"
  by (auto simp: host_key_def and_then_Inr_iff)

lemma named_links_Cons:
  "named_links c (h # hs) =
     \<lparr>host_name = ''h'' @ str_of_nat c, host_mac = Some (mac h),
      switch_dpid = fst (key_of h), port_no = snd (key_of h)\<rparr> # named_links (Suc c) hs"
  by (simp add: named_links_def upt_conv_Cons del: upt_Suc)

text \<open>Both second loops name, in order, the hosts that are not on a switch-link port.\<close>

lemma map_hosts_result:
  "(\<forall>h\<in>set hs. \<exists>key. host_key h = Inr key) \<Longrightarrow>
     map_hosts sp hs c = Inr (named_links c (filter (\<lambda>h. \<not> on_switch_port sp h) hs))"
proof (induction hs arbitrary: c)
  case Nil
  then show ?case by (simp add: named_links_def)
next
  case (Cons h hs)
  then obtain key where key: "host_key h = Inr key" by auto
  then have k: "key_of h = key" by (simp add: key_of_def)
  from Cons have IH:
    "\<And>c. map_hosts sp hs c = Inr (named_links c (filter (\<lambda>h. \<not> on_switch_port sp h) hs))"
    by simp
  show ?case
    using py_int_of_host_key[OF key]
    by (simp add: and_then_def IH on_switch_port_def k named_links_Cons split: option.splits)
qed

lemma filter_hosts_result:
  "(\<forall>h\<in>set hs. \<exists>key. host_key h = Inr key) \<Longrightarrow>
     filter_hosts sp hs c = Inr (named_links c (filter (\<lambda>h. \<not> on_switch_port sp h) hs))"
proof (induction hs arbitrary: c)
  case Nil
  then show ?case by (simp add: named_links_def)
next
  case (Cons h hs)
  then obtain key where key: "host_key h = Inr key" by auto
  then have k: "key_of h = key" by (simp add: key_of_def)
  from Cons have IH:
    "\<And>c. filter_hosts sp hs c = Inr (named_links c (filter (\<lambda>h. \<not> on_switch_port sp h) hs))"
    by simp
  show ?case
    using py_int_of_host_key[OF key]
    by (simp add: and_then_def IH on_switch_port_def k named_links_Cons split: option.splits)
qed

lemma host_names_from_Suc:
  "host_names_from c (Suc n) = (''h'' @ str_of_nat c) # host_names_from (Suc c) n"
  by (simp add: host_names_from_def upt_conv_Cons del: upt_Suc)

lemma named_links_names: "map host_name (named_links c hs) = host_names_from c (length hs)"
  by (induction hs arbitrary: c)
     (simp_all add: named_links_Cons host_names_from_Suc, simp add: named_links_def host_names_from_def)

lemma length_named_links: "length (named_links c hs) = length hs"
  by (simp add: named_links_def)

lemma named_links_keys:
  "map (\<lambda>r. (switch_dpid r, port_no r)) (named_links c hs) = map key_of hs"
  by (induction hs arbitrary: c)
     (simp_all add: named_links_Cons, simp add: named_links_def)

text \<open>Evaluation of the string conversions on the digits the examples use.\<close>

lemma int_of_string_digits [simp]:
  "int_of_string ''1'' = Inr 1" "int_of_string ''2'' = Inr 2" "int_of_string ''3'' = Inr 3"
  by (simp_all add: int_of_string_def strip_def is_space_def parse_unsigned_def is_digit_def
      digit_val_def int_max_str_digits_def)

lemma str_of_nat_digits [simp]:
  "str_of_nat (Suc 0) = ''1''" "str_of_nat (Suc (Suc 0)) = ''2''"
  "str_of_nat 2 = ''2''" "str_of_nat 3 = ''3''"
  by code_simp+


text \<open>The permuted hosts are sorted into the same list, so the second loop sees no difference.\<close>

lemma mapping_of_permuted_hosts:
  assumes ok: "initialize_host_mapping links hosts = Inr out"
    and perm: "mset hosts' = mset hosts"
    and keys: "distinct (map host_key hosts)"
  shows "initialize_host_mapping links hosts' = Inr out
    \<and> map host_name out = host_names_from 1 (length out)
    \<and> sorted_wrt (<) (map (\<lambda>r. (switch_dpid r, port_no r)) out)"
proof -
  from ok obtain sp ordered where sp: "collect_switch_ports links Map.empty = Inr sp"
    and ordered: "sorted_hosts hosts = Inr ordered"
    and out: "map_hosts sp ordered 1 = Inr out"
    by (auto simp: initialize_host_mapping_def and_then_Inr_iff)
  from ordered have parse: "\<forall>h\<in>set hosts. \<exists>key. host_key h = Inr key"
    and ord_eq: "ordered = sort_key key_of hosts"
    by (simp_all add: sorted_hosts_Inr_iff)
  from perm have sets: "set hosts' = set hosts" by (rule mset_eq_setD)
  have "map host_key hosts = map (\<lambda>h. Inr (key_of h)) hosts"
    using parse by (intro map_cong) (auto simp: key_of_def)
  then have "map host_key hosts = map Inr (map key_of hosts)" by (simp add: comp_def)
  with keys have dk: "distinct (map key_of hosts)"
    by (auto simp: distinct_map inj_on_def)
  have same: "sort_key key_of hosts' = sort_key key_of hosts"
    using perm dk by (rule sort_key_permutation)
  have ordered': "sorted_hosts hosts' = Inr ordered"
    using parse sets same ord_eq by (simp add: sorted_hosts_Inr_iff)
  have parse_ord: "\<forall>h\<in>set ordered. \<exists>key. host_key h = Inr key"
    using parse ord_eq by simp
  let ?kept = "filter (\<lambda>h. \<not> on_switch_port sp h) ordered"
  have out_eq: "out = named_links 1 ?kept"
    using map_hosts_result[OF parse_ord, of sp 1] out by simp
  have "sorted (map key_of ordered)" "distinct (map key_of ordered)"
    using dk ord_eq by (simp_all add: distinct_map inj_on_def)
  then have "sorted_wrt (<) (map key_of ordered)"
    by (simp add: strict_sorted_iff)
  then have "sorted_wrt (<) (map key_of ?kept)"
    by (simp add: sorted_wrt_map sorted_wrt_filter)
  then have strict: "sorted_wrt (<) (map (\<lambda>r. (switch_dpid r, port_no r)) out)"
    by (simp add: out_eq named_links_keys)
  have names: "map host_name out = host_names_from 1 (length out)"
    by (simp add: out_eq named_links_names length_named_links)
  show ?thesis
    using sp ordered' out strict names
    by (simp add: initialize_host_mapping_def and_then_def)
qed

text \<open>The two mappers are the same function.\<close>

lemma filter_host_links_eq:
  "filter_host_links links hosts = initialize_host_mapping links hosts"
proof (cases "collect_switch_ports links Map.empty")
  case (Inl e)
  then show ?thesis
    by (simp add: filter_host_links_def initialize_host_mapping_def and_then_def)
next
  case (Inr sp)
  show ?thesis
  proof (cases "sorted_hosts hosts")
    case (Inl e)
    with Inr show ?thesis
      by (simp add: filter_host_links_def initialize_host_mapping_def and_then_def)
  next
    case ordered: (Inr ordered)
    then have "\<forall>h\<in>set ordered. \<exists>key. host_key h = Inr key"
      by (simp add: sorted_hosts_Inr_iff)
    then have "filter_hosts sp ordered 1 = map_hosts sp ordered 1"
      by (simp add: map_hosts_result filter_hosts_result)
    with Inr ordered show ?thesis
      by (simp add: filter_host_links_def initialize_host_mapping_def and_then_def)
  qed
qed

lemma ensure_switch_int:
  "\<exists>sp'. ensure_switch sp (PyInt d) = Inr sp' \<and> sp' (PyInt d) \<noteq> None
         \<and> (\<forall>k. sp k \<noteq> None \<longrightarrow> sp' k \<noteq> None)"
  by (simp add: ensure_switch_def)

lemma add_port_int:
  "sp (PyInt d) \<noteq> None \<Longrightarrow>
     \<exists>sp'. add_port sp (PyInt d) (PyInt p) = Inr sp' \<and> (\<forall>k. sp k \<noteq> None \<longrightarrow> sp' k \<noteq> None)"
  by (auto simp: add_port_def)

lemma getitem2_raw_link:
  "getitem2 (val_of_raw_link link) ''src'' ''dpid'' = Inr (PyInt (fst (link_src link)))"
  "getitem2 (val_of_raw_link link) ''src'' ''port_no'' = Inr (PyInt (snd (link_src link)))"
  "getitem2 (val_of_raw_link link) ''dst'' ''dpid'' = Inr (PyInt (fst (link_dst link)))"
  "getitem2 (val_of_raw_link link) ''dst'' ''port_no'' = Inr (PyInt (snd (link_dst link)))"
  by (simp_all add: val_of_raw_link_def getitem2_def and_then_def)

lemma collect_switch_ports_raw:
  "\<exists>sp'. collect_switch_ports (map val_of_raw_link raw_links) sp = Inr sp'"
proof (induction raw_links arbitrary: sp)
  case Nil
  show ?case by simp
next
  case (Cons link rest)
  let ?sd = "PyInt (fst (link_src link))" and ?sp = "PyInt (snd (link_src link))"
  let ?dd = "PyInt (fst (link_dst link))" and ?dp = "PyInt (snd (link_dst link))"
  from ensure_switch_int obtain sp1
    where 1: "ensure_switch sp ?sd = Inr sp1" "sp1 ?sd \<noteq> None" by blast
  from ensure_switch_int obtain sp2
    where 2: "ensure_switch sp1 ?dd = Inr sp2" "sp2 ?dd \<noteq> None"
      "\<forall>k. sp1 k \<noteq> None \<longrightarrow> sp2 k \<noteq> None" by blast
  from 1(2) 2(3) have "sp2 ?sd \<noteq> None" by blast
  from add_port_int [of sp2 "fst (link_src link)" "snd (link_src link)"] this obtain sp3
    where 3: "add_port sp2 ?sd ?sp = Inr sp3" "\<forall>k. sp2 k \<noteq> None \<longrightarrow> sp3 k \<noteq> None" by blast
  from 2(2) 3(2) have "sp3 ?dd \<noteq> None" by blast
  from add_port_int [of sp3 "fst (link_dst link)" "snd (link_dst link)"] this obtain sp4
    where 4: "add_port sp3 ?dd ?dp = Inr sp4" by blast
  have "collect_switch_ports (map val_of_raw_link (link # rest)) sp
       = collect_switch_ports (map val_of_raw_link rest) sp4"
    by (simp add: getitem2_raw_link 1(1) 2(1) 3(1) 4 and_then_def)
  with Cons [of sp4] show ?case by simp
qed

lemma initialize_host_mapping_returns:
  assumes "\<forall>h\<in>set hosts. \<exists>key. host_key h = Inr key"
  shows "\<exists>out. initialize_host_mapping (map val_of_raw_link raw_links) hosts = Inr out"
proof -
  from collect_switch_ports_raw obtain sp
    where sp: "collect_switch_ports (map val_of_raw_link raw_links) Map.empty = Inr sp" by blast
  from assms have ordered: "sorted_hosts hosts = Inr (sort_key key_of hosts)"
    by (simp add: sorted_hosts_Inr_iff)
  from assms have "\<forall>h\<in>set (sort_key key_of hosts). \<exists>key. host_key h = Inr key" by simp
  from map_hosts_result [OF this, of sp 1] sp ordered show ?thesis
    by (simp add: initialize_host_mapping_def and_then_def)
qed

text \<open>
  C4 (as amended). On a host list whose parsed \<open>(attached switch, attached port)\<close> keys
  are pairwise distinct, both mappers give the same result for every permutation of the
  hosts, whatever the links: a list is returned for the permuted hosts exactly when it
  is returned for the original ones. Its names are \<open>h1\<close>, \<open>h2\<close>, ... in list order and
  its \<open>(switch, port)\<close> pairs are strictly ascending. With the links as the service's
  dictionaries and host fields that \<open>int\<close> accepts, a list is returned.
\<close>

theorem host_mapping_permutation:
  assumes perm: "mset hosts' = mset hosts"
    and keys: "distinct (map host_key hosts)"
  shows "(initialize_host_mapping links hosts' = Inr out
            \<longleftrightarrow> initialize_host_mapping links hosts = Inr out)
    \<and> (filter_host_links links hosts' = Inr out
            \<longleftrightarrow> initialize_host_mapping links hosts = Inr out)
    \<and> (initialize_host_mapping links hosts = Inr out \<longrightarrow>
          map host_name out = host_names_from 1 (length out)
          \<and> sorted_wrt (<) (map (\<lambda>r. (switch_dpid r, port_no r)) out))
    \<and> ((\<forall>h\<in>set hosts. \<exists>key. host_key h = Inr key) \<longrightarrow>
          (\<exists>produced. initialize_host_mapping (map val_of_raw_link raw_links) hosts'
                        = Inr produced))"
proof -
  from perm have perm': "mset hosts = mset hosts'" by simp
  from perm have "mset (map host_key hosts') = mset (map host_key hosts)" by simp
  with keys have keys': "distinct (map host_key hosts')"
    by (metis mset_eq_imp_distinct_iff)
  have onto: "initialize_host_mapping links hosts = Inr out
      \<Longrightarrow> initialize_host_mapping links hosts' = Inr out"
    using mapping_of_permuted_hosts [OF _ perm keys] by blast
  have conv: "initialize_host_mapping links hosts' = Inr out
      \<Longrightarrow> initialize_host_mapping links hosts = Inr out"
    using mapping_of_permuted_hosts [OF _ perm' keys'] by blast
  have shape: "initialize_host_mapping links hosts = Inr out \<Longrightarrow>
          map host_name out = host_names_from 1 (length out)
          \<and> sorted_wrt (<) (map (\<lambda>r. (switch_dpid r, port_no r)) out)"
    using mapping_of_permuted_hosts [OF _ perm keys] by blast
  from perm have "set hosts' = set hosts" by (rule mset_eq_setD)
  then have total: "(\<forall>h\<in>set hosts. \<exists>key. host_key h = Inr key) \<Longrightarrow>
          (\<exists>produced. initialize_host_mapping (map val_of_raw_link raw_links) hosts'
                        = Inr produced)"
    using initialize_host_mapping_returns [of hosts' raw_links] by simp
  from onto conv shape total show ?thesis
    unfolding filter_host_links_eq by blast
qed

theorem host_mapping_permutation_witness:
  "initialize_host_mapping [val_of_raw_link \<lparr>link_src = (1, 1), link_dst = (2, 1)\<rparr>]
       [\<lparr>mac = ''cc'', attached_switch = PyStr ''2'', attached_port = PyStr ''3''\<rparr>,
        \<lparr>mac = ''aa'', attached_switch = PyStr ''1'', attached_port = PyStr ''1''\<rparr>,
        \<lparr>mac = ''bb'', attached_switch = PyStr ''1'', attached_port = PyStr ''3''\<rparr>]
     = Inr [\<lparr>host_name = ''h1'', host_mac = Some ''bb'', switch_dpid = 1, port_no = 3\<rparr>,
            \<lparr>host_name = ''h2'', host_mac = Some ''cc'', switch_dpid = 2, port_no = 3\<rparr>]
   \<and> initialize_host_mapping [val_of_raw_link \<lparr>link_src = (1, 1), link_dst = (2, 1)\<rparr>]
       [\<lparr>mac = ''bb'', attached_switch = PyStr ''1'', attached_port = PyStr ''3''\<rparr>,
        \<lparr>mac = ''aa'', attached_switch = PyStr ''1'', attached_port = PyStr ''1''\<rparr>,
        \<lparr>mac = ''cc'', attached_switch = PyStr ''2'', attached_port = PyStr ''3''\<rparr>]
     = Inr [\<lparr>host_name = ''h1'', host_mac = Some ''bb'', switch_dpid = 1, port_no = 3\<rparr>,
            \<lparr>host_name = ''h2'', host_mac = Some ''cc'', switch_dpid = 2, port_no = 3\<rparr>]
   \<and> filter_host_links [val_of_raw_link \<lparr>link_src = (1, 1), link_dst = (2, 1)\<rparr>]
       [\<lparr>mac = ''bb'', attached_switch = PyStr ''1'', attached_port = PyStr ''3''\<rparr>,
        \<lparr>mac = ''aa'', attached_switch = PyStr ''1'', attached_port = PyStr ''1''\<rparr>,
        \<lparr>mac = ''cc'', attached_switch = PyStr ''2'', attached_port = PyStr ''3''\<rparr>]
     = Inr [\<lparr>host_name = ''h1'', host_mac = Some ''bb'', switch_dpid = 1, port_no = 3\<rparr>,
            \<lparr>host_name = ''h2'', host_mac = Some ''cc'', switch_dpid = 2, port_no = 3\<rparr>]
   \<and> mset [\<lparr>mac = ''bb'', attached_switch = PyStr ''1'', attached_port = PyStr ''3''\<rparr>,
        \<lparr>mac = ''aa'', attached_switch = PyStr ''1'', attached_port = PyStr ''1''\<rparr>,
        \<lparr>mac = ''cc'', attached_switch = PyStr ''2'', attached_port = PyStr ''3''\<rparr>]
     = mset [\<lparr>mac = ''cc'', attached_switch = PyStr ''2'', attached_port = PyStr ''3''\<rparr>,
        \<lparr>mac = ''aa'', attached_switch = PyStr ''1'', attached_port = PyStr ''1''\<rparr>,
        \<lparr>mac = ''bb'', attached_switch = PyStr ''1'', attached_port = PyStr ''3''\<rparr>]
   \<and> distinct (map host_key
       [\<lparr>mac = ''cc'', attached_switch = PyStr ''2'', attached_port = PyStr ''3''\<rparr>,
        \<lparr>mac = ''aa'', attached_switch = PyStr ''1'', attached_port = PyStr ''1''\<rparr>,
        \<lparr>mac = ''bb'', attached_switch = PyStr ''1'', attached_port = PyStr ''3''\<rparr>])
   \<and> host_names_from 1 2 = [''h1'', ''h2'']"
proof -
  let ?links = "[val_of_raw_link \<lparr>link_src = (1, 1), link_dst = (2, 1)\<rparr>]"
  let ?hosts = "[\<lparr>mac = ''cc'', attached_switch = PyStr ''2'', attached_port = PyStr ''3''\<rparr>,
        \<lparr>mac = ''aa'', attached_switch = PyStr ''1'', attached_port = PyStr ''1''\<rparr>,
        \<lparr>mac = ''bb'', attached_switch = PyStr ''1'', attached_port = PyStr ''3''\<rparr>]"
  let ?out = "[\<lparr>host_name = ''h1'', host_mac = Some ''bb'', switch_dpid = 1, port_no = 3\<rparr>,
            \<lparr>host_name = ''h2'', host_mac = Some ''cc'', switch_dpid = 2, port_no = 3\<rparr>]"
  have ok: "initialize_host_mapping ?links ?hosts = Inr ?out"
    by (simp add: initialize_host_mapping_def and_then_def sorted_hosts_def host_key_def
        val_of_raw_link_def getitem2_def ensure_switch_def add_port_def)
  have perm: "mset (rev ?hosts) = mset ?hosts"
    by (rule mset_rev)
  have keys: "distinct (map host_key ?hosts)"
    by (simp add: host_key_def and_then_def)
  have names: "host_names_from 1 2 = [''h1'', ''h2'']"
    by (simp add: host_names_from_def upt_conv_Cons del: upt_Suc)
  from host_mapping_permutation [OF perm keys, of ?links ?out] ok perm keys names
  show ?thesis by simp
qed


text \<open>
  The claim as stated fails when two hosts share an attachment point: the sort is
  stable and its key is the attachment point alone, so the two hosts keep their
  arrival order and exchange their names when the input is permuted.
\<close>

theorem host_mapping_permutation_counterexample:
  "mset [\<lparr>mac = ''bb'', attached_switch = PyStr ''1'', attached_port = PyStr ''3''\<rparr>,
         \<lparr>mac = ''aa'', attached_switch = PyStr ''1'', attached_port = PyStr ''3''\<rparr>]
     = mset [\<lparr>mac = ''aa'', attached_switch = PyStr ''1'', attached_port = PyStr ''3''\<rparr>,
             \<lparr>mac = ''bb'', attached_switch = PyStr ''1'', attached_port = PyStr ''3''\<rparr>]
   \<and> initialize_host_mapping []
        [\<lparr>mac = ''aa'', attached_switch = PyStr ''1'', attached_port = PyStr ''3''\<rparr>,
         \<lparr>mac = ''bb'', attached_switch = PyStr ''1'', attached_port = PyStr ''3''\<rparr>]
     = Inr [\<lparr>host_name = ''h1'', host_mac = Some ''aa'', switch_dpid = 1, port_no = 3\<rparr>,
            \<lparr>host_name = ''h2'', host_mac = Some ''bb'', switch_dpid = 1, port_no = 3\<rparr>]
   \<and> initialize_host_mapping []
        [\<lparr>mac = ''bb'', attached_switch = PyStr ''1'', attached_port = PyStr ''3''\<rparr>,
         \<lparr>mac = ''aa'', attached_switch = PyStr ''1'', attached_port = PyStr ''3''\<rparr>]
     = Inr [\<lparr>host_name = ''h1'', host_mac = Some ''bb'', switch_dpid = 1, port_no = 3\<rparr>,
            \<lparr>host_name = ''h2'', host_mac = Some ''aa'', switch_dpid = 1, port_no = 3\<rparr>]"
  by (simp add: initialize_host_mapping_def and_then_def sorted_hosts_def host_key_def)

section \<open>Properties of snapshot capture\<close>

lemma collect_switch_ports_canon:
  "collect_switch_ports (val_of_canon_link link # rest) sp = Inl TypeError"
  by (simp add: val_of_canon_link_def getitem2_def and_then_def)

text \<open>
  C2. In snapshot mode with no host mapping captured yet, \<open>initialize_host_mapping\<close>
  is called on the list \<open>deduplicate_links\<close> returned. Its first subscript
  \<open>link["src"]\<close> indexes a tuple with a string, so for every non-empty fetched link list
  the call raises \<open>TypeError\<close>, nothing catches it, and no mapping and no snapshot are
  produced.
\<close>

theorem capture_snapshot_raises:
  assumes fetched: "links \<noteq> []"
    and listed: "list_of_set (deduplicate_links links) deduplicated_links"
  shows "initialize_host_mapping (map val_of_canon_link deduplicated_links) hosts = Inl TypeError
    \<and> capture_snapshot switches hosts deduplicated_links None previous = Inl TypeError"
proof -
  from fetched have "deduplicate_links links \<noteq> {}"
    by (simp add: deduplicate_links_image)
  with listed obtain link rest where "deduplicated_links = link # rest"
    by (cases deduplicated_links) (auto simp: list_of_set_def)
  then have "initialize_host_mapping (map val_of_canon_link deduplicated_links) hosts
      = Inl TypeError"
    by (simp add: initialize_host_mapping_def collect_switch_ports_canon and_then_def
        del: collect_switch_ports.simps)
  then show ?thesis by (simp add: capture_snapshot_def and_then_def)
qed

theorem capture_snapshot_raises_witness:
  "[\<lparr>link_src = (1, 1), link_dst = (2, 1)\<rparr>, \<lparr>link_src = (2, 1), link_dst = (1, 1)\<rparr>] \<noteq> []
   \<and> list_of_set
        (deduplicate_links
           [\<lparr>link_src = (1, 1), link_dst = (2, 1)\<rparr>, \<lparr>link_src = (2, 1), link_dst = (1, 1)\<rparr>])
        [((1, 1), (2, 1))]
   \<and> initialize_host_mapping (map val_of_canon_link [((1, 1), (2, 1))])
        [\<lparr>mac = ''aa'', attached_switch = PyStr ''1'', attached_port = PyStr ''3''\<rparr>]
       = Inl TypeError
   \<and> capture_snapshot [1, 2]
        [\<lparr>mac = ''aa'', attached_switch = PyStr ''1'', attached_port = PyStr ''3''\<rparr>]
        [((1, 1), (2, 1))] None NoFile = Inl TypeError"
proof -
  let ?links = "[\<lparr>link_src = (1, 1), link_dst = (2, 1)\<rparr>, \<lparr>link_src = (2, 1), link_dst = (1, 1)\<rparr>]"
  have fetched: "?links \<noteq> []" by simp
  have listed: "list_of_set (deduplicate_links ?links) [((1, 1), (2, 1))]"
    by (simp add: list_of_set_def deduplicate_links_def sorted_pair_def)
  from capture_snapshot_raises [OF fetched listed] fetched listed show ?thesis
    by simp
qed

section \<open>Properties of the graph model\<close>

lemma has_edge_iff: "has_edge G u v \<longleftrightarrow> {u, v} \<in> edge_set G"
  by (auto simp: has_edge_def edge_set_def doubleton_eq_iff)

lemma nodes_add_node [simp]: "set (nodes (add_node n G)) = insert n (set (nodes G))"
  by (auto simp: add_node_def)

lemma edges_add_node [simp]: "edges (add_node n G) = edges G"
  by (simp add: add_node_def)

lemma edge_set_add_node [simp]: "edge_set (add_node n G) = edge_set G"
  by (simp add: edge_set_def)

lemma nodes_add_edge [simp]: "set (nodes (add_edge u v G)) = insert u (insert v (set (nodes G)))"
  by (auto simp: add_edge_def Let_def)

lemma edge_set_add_edge [simp]: "edge_set (add_edge u v G) = insert {u, v} (edge_set G)"
proof -
  let ?G1 = "add_node v (add_node u G)"
  have e1: "edge_set ?G1 = edge_set G" by simp
  show ?thesis
  proof (cases "has_edge ?G1 u v")
    case True
    then have "{u, v} \<in> edge_set G" by (simp add: has_edge_iff)
    with True show ?thesis by (auto simp: add_edge_def Let_def)
  next
    case False
    then have "add_edge u v G = ?G1\<lparr>edges := edges ?G1 @ [(u, v)]\<rparr>"
      by (simp add: add_edge_def Let_def)
    then show ?thesis using e1 by (simp add: edge_set_def)
  qed
qed

lemma add_node_present: "n \<in> set (nodes G) \<Longrightarrow> add_node n G = G"
  by (simp add: add_node_def)

lemma isolated_loop_id:
  "set ns \<subseteq> set (nodes G) \<Longrightarrow>
     fold (\<lambda>n g. if isolated_host g n then add_node n g else g) ns G = G"
  by (induction ns arbitrary: G) (auto simp: add_node_present)

lemma fold_add_node_nodes:
  "set (nodes (fold add_node ns G)) = set ns \<union> set (nodes G)"
  by (induction ns arbitrary: G) auto

lemma fold_add_node_edges:
  "edge_set (fold add_node ns G) = edge_set G"
  by (induction ns arbitrary: G) auto

lemma fold_add_edge_nodes:
  "set (nodes (fold (\<lambda>(u, v). add_edge u v) es G)) = fst ` set es \<union> snd ` set es \<union> set (nodes G)"
  by (induction es arbitrary: G) (auto simp: split_beta)

lemma fold_add_edge_edges:
  "edge_set (fold (\<lambda>(u, v). add_edge u v) es G) = (\<lambda>(u, v). {u, v}) ` set es \<union> edge_set G"
  by (induction es arbitrary: G) (auto simp: split_beta)

lemma fold_host_links_nodes:
  "set (nodes (fold (\<lambda>host_link g.
        add_edge (Switch (switch_dpid host_link)) (Host (host_name host_link))
          (add_node (Host (host_name host_link)) g)) hls G))
     = \<Union> (host_edge ` set hls) \<union> set (nodes G)"
  by (induction hls arbitrary: G) (auto simp: host_edge_def)

lemma fold_host_links_edges:
  "edge_set (fold (\<lambda>host_link g.
        add_edge (Switch (switch_dpid host_link)) (Host (host_name host_link))
          (add_node (Host (host_name host_link)) g)) hls G)
     = host_edge ` set hls \<union> edge_set G"
  by (induction hls arbitrary: G) (auto simp: host_edge_def)

lemma edge_set_clear [simp]: "edge_set (clear G) = {}" "nodes (clear G) = []"
  by (simp_all add: clear_def edge_set_def)

lemma visualize_topology_nodes:
  "node_set (visualize_topology G switches links host_links)
     = Switch ` set switches \<union> \<Union> (link_edge ` set links) \<union> \<Union> (host_edge ` set host_links)"
proof -
  have "fst ` (\<lambda>link. (Switch (fst (fst link)), Switch (fst (snd link)))) ` set links
      \<union> snd ` (\<lambda>link. (Switch (fst (fst link)), Switch (fst (snd link)))) ` set links
      = \<Union> (link_edge ` set links)"
    by (auto simp: link_edge_def image_image)
  then show ?thesis
    unfolding visualize_topology_def Let_def node_set_def
    by (simp add: isolated_loop_id fold_host_links_nodes fold_add_edge_nodes
        fold_add_node_nodes Un_ac)
qed

lemma visualize_topology_edges:
  "edge_set (visualize_topology G switches links host_links)
     = link_edge ` set links \<union> host_edge ` set host_links"
proof -
  have "(\<lambda>(u, v). {u, v}) ` (\<lambda>link. (Switch (fst (fst link)), Switch (fst (snd link)))) ` set links
      = link_edge ` set links"
    by (simp add: link_edge_def image_image)
  then show ?thesis
    unfolding visualize_topology_def Let_def
    by (simp add: isolated_loop_id fold_host_links_edges fold_add_edge_edges
        fold_add_node_edges Un_ac)
qed

section \<open>Properties of \<open>add_link\<close> and \<open>remove_link\<close>\<close>

lemma find_switch_link_None_iff:
  "find_switch_link facts a b = None
     \<longleftrightarrow> \<not> (\<exists>link \<in> set facts. {fst (fst link), fst (snd link)} = {a, b})"
  by (induction facts) auto

lemma find_host_link_None_iff:
  "find_host_link snapshot src dst = None
     \<longleftrightarrow> \<not> (\<exists>hl \<in> set snapshot.
            (Host (host_name hl) = src \<and> Switch (switch_dpid hl) = dst)
            \<or> (Host (host_name hl) = dst \<and> Switch (switch_dpid hl) = src))"
  by (induction snapshot) auto

lemma parse_pair:
  "parse_node source = Inr src \<Longrightarrow> parse_node destination = Inr dst \<Longrightarrow>
     and_then (parse_node source) (\<lambda>src. and_then (parse_node destination) (\<lambda>dst. Inr (src, dst)))
       = Inr (src, dst)"
  by (simp add: and_then_def)

lemma parse_node_examples [simp]:
  "parse_node ''1'' = Inr (Switch 1)" "parse_node ''2'' = Inr (Switch 2)"
  "parse_node ''3'' = Inr (Switch 3)"
  "parse_node ''h1'' = Inr (Host ''h1'')" "parse_node ''h2'' = Inr (Host ''h2'')"
  by (simp_all add: parse_node_def startswith_h_def and_then_def)

text \<open>
  C1. With the ground-truth switch links captured, a link-up whose two tokens parse to
  an edge that is not in the ground truth leaves the graph and both tracked collections
  as they were and reports that the two nodes are not connected in the original
  topology.
\<close>

theorem add_link_rejects:
  assumes src: "parse_node source = Inr src"
    and dst: "parse_node destination = Inr dst"
    and absent: "\<not> in_ground_truth facts host_links_snapshot src dst"
  shows "add_link G source destination switches links host_links host_links_snapshot (Some facts)
           = Inr (NotConnected src dst, G, links, host_links)"
proof (cases src; cases dst)
  fix a b assume "src = Switch a" "dst = Switch b"
  moreover from this absent have "find_switch_link facts a b = None"
    by (simp add: in_ground_truth_def find_switch_link_None_iff)
  ultimately show ?thesis
    using parse_pair [OF src dst] by (simp add: add_link_def)
next
  fix a t assume "src = Switch a" "dst = Host t"
  moreover from this absent have "find_host_link host_links_snapshot src dst = None"
    by (simp add: in_ground_truth_def find_host_link_None_iff)
  ultimately show ?thesis
    using parse_pair [OF src dst] by (simp add: add_link_def)
next
  fix s b assume "src = Host s" "dst = Switch b"
  moreover from this absent have "find_host_link host_links_snapshot src dst = None"
    by (simp add: in_ground_truth_def find_host_link_None_iff)
  ultimately show ?thesis
    using parse_pair [OF src dst] by (simp add: add_link_def)
next
  fix s t assume "src = Host s" "dst = Host t"
  then show ?thesis
    using parse_pair [OF src dst] by (simp add: add_link_def)
qed

theorem add_link_rejects_witness:
  "parse_node ''1'' = Inr (Switch 1) \<and> parse_node ''3'' = Inr (Switch 3)
   \<and> \<not> in_ground_truth [((1, 1), (2, 1))]
         [\<lparr>host_name = ''h1'', host_mac = Some ''aa'', switch_dpid = 1, port_no = 3\<rparr>]
         (Switch 1) (Switch 3)
   \<and> add_link \<lparr>nodes = [Switch 1, Switch 2, Switch 3], edges = [(Switch 1, Switch 2)]\<rparr>
        ''1'' ''3'' [1, 2, 3] [((1, Some 1), (2, Some 1))] []
        [\<lparr>host_name = ''h1'', host_mac = Some ''aa'', switch_dpid = 1, port_no = 3\<rparr>]
        (Some [((1, 1), (2, 1))])
     = Inr (NotConnected (Switch 1) (Switch 3),
            \<lparr>nodes = [Switch 1, Switch 2, Switch 3], edges = [(Switch 1, Switch 2)]\<rparr>,
            [((1, Some 1), (2, Some 1))], [])"
proof -
  have src: "parse_node ''1'' = Inr (Switch 1)" and dst: "parse_node ''3'' = Inr (Switch 3)"
    by simp_all
  have absent: "\<not> in_ground_truth [((1, 1), (2, 1))]
         [\<lparr>host_name = ''h1'', host_mac = Some ''aa'', switch_dpid = 1, port_no = 3\<rparr>]
         (Switch 1) (Switch 3)"
    by (simp add: in_ground_truth_def doubleton_eq_iff)
  from add_link_rejects [OF src dst absent] src dst absent show ?thesis
    by simp
qed

text \<open>
  C10. A link-down of a switch-to-switch edge keeps exactly the tracked links whose
  unordered pair of switch ids differs from that of the edge: the ports play no part,
  and every parallel record between the two switches is dropped at once.
\<close>

theorem remove_link_drops_parallel:
  assumes src: "parse_node source = Inr (Switch a)"
    and dst: "parse_node destination = Inr (Switch b)"
    and present: "has_edge G (Switch a) (Switch b)"
  shows "remove_link G source destination switches links host_links all_hosts
           = (LinkRemoved (Switch a) (Switch b),
              visualize_topology (remove_edge (Switch a) (Switch b) G) switches
                (filter (\<lambda>link. {fst (fst link), fst (snd link)} \<noteq> {a, b}) links) host_links,
              filter (\<lambda>link. {fst (fst link), fst (snd link)} \<noteq> {a, b}) links,
              host_links)
         \<and> (\<forall>p q. ((a, p), (b, q)) \<notin> set (filter (\<lambda>link. {fst (fst link), fst (snd link)} \<noteq> {a, b}) links)
                 \<and> ((b, q), (a, p)) \<notin> set (filter (\<lambda>link. {fst (fst link), fst (snd link)} \<noteq> {a, b}) links))"
  using parse_pair [OF src dst] present
  by (auto simp: remove_link_def Let_def)

theorem remove_link_drops_parallel_witness:
  "parse_node ''1'' = Inr (Switch 1) \<and> parse_node ''2'' = Inr (Switch 2)
   \<and> has_edge \<lparr>nodes = [Switch 1, Switch 2, Switch 3],
                edges = [(Switch 1, Switch 2), (Switch 1, Switch 3)]\<rparr> (Switch 1) (Switch 2)
   \<and> remove_link \<lparr>nodes = [Switch 1, Switch 2, Switch 3],
                   edges = [(Switch 1, Switch 2), (Switch 1, Switch 3)]\<rparr>
        ''1'' ''2'' [1, 2, 3]
        [((1, Some 1), (2, Some 1)), ((2, Some 5), (1, Some 7)), ((1, Some 2), (3, Some 1))]
        [] []
     = (LinkRemoved (Switch 1) (Switch 2),
        \<lparr>nodes = [Switch 1, Switch 2, Switch 3], edges = [(Switch 1, Switch 3)]\<rparr>,
        [((1, Some 2), (3, Some 1))], [])"
proof -
  let ?G = "\<lparr>nodes = [Switch 1, Switch 2, Switch 3],
             edges = [(Switch 1, Switch 2), (Switch 1, Switch 3)]\<rparr>"
  have src: "parse_node ''1'' = Inr (Switch 1)" and dst: "parse_node ''2'' = Inr (Switch 2)"
    by simp_all
  have present: "has_edge ?G (Switch 1) (Switch 2)"
    by (simp add: has_edge_def)
  have drawn: "visualize_topology (remove_edge (Switch 1) (Switch 2) ?G) [1, 2, 3]
        [((1, Some 2), (3, Some 1))] []
      = \<lparr>nodes = [Switch 1, Switch 2, Switch 3], edges = [(Switch 1, Switch 3)]\<rparr>"
    by (simp add: visualize_topology_def clear_def add_node_def add_edge_def has_edge_def
        isolated_host_def)
  from remove_link_drops_parallel [OF src dst present, of "[1, 2, 3]"
      "[((1, Some 1), (2, Some 1)), ((2, Some 5), (1, Some 7)), ((1, Some 2), (3, Some 1))]"
      "[]" "[]"]
    src dst present drawn
  show ?thesis by (simp add: doubleton_eq_iff)
qed

lemma find_switch_link_matching:
  "find_switch_link facts a b = map_option (\<lambda>entry. fact_port entry a) (matching_switch_fact facts a b)"
  by (induction facts) (auto simp: matching_switch_fact_def fact_port_def)

lemma find_host_link_matching:
  "find_host_link snapshot (Host s) (Switch b) = map_option port_no (matching_host_fact snapshot s b)"
  "find_host_link snapshot (Switch b) (Host s) = map_option port_no (matching_host_fact snapshot s b)"
  by (induction snapshot) (auto simp: matching_host_fact_def)

lemma visualize_example2:
  "visualize_topology G [1, 2] [((1, Some 7), (2, None))] []
    = \<lparr>nodes = [Switch 1, Switch 2], edges = [(Switch 1, Switch 2)]\<rparr>"
  "visualize_topology G [1, 2] [((1, Some 1), (2, None))] []
    = \<lparr>nodes = [Switch 1, Switch 2], edges = [(Switch 1, Switch 2)]\<rparr>"
  "visualize_topology G [1, 2] []
     [\<lparr>host_name = ''h1'', host_mac = None, switch_dpid = 1, port_no = 3\<rparr>]
    = \<lparr>nodes = [Switch 1, Switch 2, Host ''h1''], edges = [(Switch 1, Host ''h1'')]\<rparr>"
  by (simp_all add: visualize_topology_def clear_def add_node_def add_edge_def has_edge_def
      isolated_host_def startswith_h_def neighbors_def)

text \<open>
  C8 (as amended). A valid link-up between two switches appends the record
  \<open>((src, p), (dst, None))\<close>, where \<open>p\<close> is the port the first matching fact records
  for \<open>src\<close>; the port of \<open>dst\<close> is not carried over. A valid link-up between a host and
  a switch appends a record with the port number of the first matching snapshot entry
  (and without the MAC).
\<close>

theorem add_link_appends:
  assumes src: "parse_node source = Inr src"
    and dst: "parse_node destination = Inr dst"
  shows "(src = Switch a \<and> dst = Switch b \<and> matching_switch_fact facts a b = Some entry \<longrightarrow>
           add_link G source destination switches links host_links host_links_snapshot
               (Some facts)
             = Inr (LinkAdded src dst,
                    visualize_topology (add_edge src dst G) switches
                      (links @ [((a, Some (fact_port entry a)), (b, None))]) host_links,
                    links @ [((a, Some (fact_port entry a)), (b, None))], host_links))
       \<and> (((src = Host s \<and> dst = Switch b) \<or> (src = Switch b \<and> dst = Host s))
            \<and> matching_host_fact host_links_snapshot s b = Some host_entry \<longrightarrow>
           add_link G source destination switches links host_links host_links_snapshot
               initial_switch_links
             = Inr (LinkAdded src dst,
                    visualize_topology (add_edge src dst G) switches links
                      (host_links @ [\<lparr>host_name = s, host_mac = None, switch_dpid = b,
                                       port_no = port_no host_entry\<rparr>]),
                    links,
                    host_links @ [\<lparr>host_name = s, host_mac = None, switch_dpid = b,
                                    port_no = port_no host_entry\<rparr>]))"
  using parse_pair [OF src dst]
  by (auto simp: add_link_def Let_def find_switch_link_matching find_host_link_matching)

theorem add_link_appends_witness:
  "parse_node ''1'' = Inr (Switch 1) \<and> parse_node ''2'' = Inr (Switch 2)
   \<and> parse_node ''h1'' = Inr (Host ''h1'')
   \<and> matching_switch_fact [((2, 5), (1, 7))] 1 2 = Some ((2, 5), (1, 7))
   \<and> add_link \<lparr>nodes = [Switch 1, Switch 2], edges = []\<rparr> ''1'' ''2'' [1, 2] [] [] []
        (Some [((2, 5), (1, 7))])
     = Inr (LinkAdded (Switch 1) (Switch 2),
            \<lparr>nodes = [Switch 1, Switch 2], edges = [(Switch 1, Switch 2)]\<rparr>,
            [((1, Some 7), (2, None))], [])
   \<and> matching_host_fact
        [\<lparr>host_name = ''h1'', host_mac = Some ''aa'', switch_dpid = 1, port_no = 3\<rparr>] ''h1'' 1
     = Some \<lparr>host_name = ''h1'', host_mac = Some ''aa'', switch_dpid = 1, port_no = 3\<rparr>
   \<and> add_link \<lparr>nodes = [Switch 1, Switch 2], edges = []\<rparr> ''1'' ''h1'' [1, 2] [] []
        [\<lparr>host_name = ''h1'', host_mac = Some ''aa'', switch_dpid = 1, port_no = 3\<rparr>] None
     = Inr (LinkAdded (Switch 1) (Host ''h1''),
            \<lparr>nodes = [Switch 1, Switch 2, Host ''h1''], edges = [(Switch 1, Host ''h1'')]\<rparr>,
            [], [\<lparr>host_name = ''h1'', host_mac = None, switch_dpid = 1, port_no = 3\<rparr>])"
proof -
  let ?G = "\<lparr>nodes = [Switch 1, Switch 2], edges = []\<rparr>"
  let ?H = "[\<lparr>host_name = ''h1'', host_mac = Some ''aa'', switch_dpid = 1, port_no = 3\<rparr>]"
  have s1: "parse_node ''1'' = Inr (Switch 1)" and s2: "parse_node ''2'' = Inr (Switch 2)"
    and h1: "parse_node ''h1'' = Inr (Host ''h1'')"
    by simp_all
  have m1: "matching_switch_fact [((2, 5), (1, 7))] 1 2 = Some ((2, 5), (1, 7))"
    by (simp add: matching_switch_fact_def insert_commute)
  have m2: "matching_host_fact ?H ''h1'' 1
     = Some \<lparr>host_name = ''h1'', host_mac = Some ''aa'', switch_dpid = 1, port_no = 3\<rparr>"
    by (simp add: matching_host_fact_def)
  have p: "fact_port ((2, 5), (1, 7)) 1 = 7" by (simp add: fact_port_def)
  from add_link_appends [OF s1 s2, where a = 1 and b = 2 and facts = "[((2, 5), (1, 7))]"
      and entry = "((2, 5), (1, 7))" and G = ?G and switches = "[1, 2]" and links = "[]"
      and host_links = "[]" and host_links_snapshot = "[]"]
    add_link_appends [OF s1 h1, where s = "''h1''" and b = 1 and host_links_snapshot = ?H
      and host_entry = "\<lparr>host_name = ''h1'', host_mac = Some ''aa'', switch_dpid = 1, port_no = 3\<rparr>"
      and G = ?G and switches = "[1, 2]" and links = "[]" and host_links = "[]"
      and initial_switch_links = None]
    s1 s2 h1 m1 m2 p
  show ?thesis by (simp add: visualize_example2)
qed

text \<open>
  The claim as stated fails for switch links: the appended record has no port for the
  destination switch, so its port information is not that of the matching fact.
\<close>

theorem add_link_appends_counterexample:
  "matching_switch_fact [((1, 1), (2, 1))] 1 2 = Some ((1, 1), (2, 1))
   \<and> add_link \<lparr>nodes = [Switch 1, Switch 2], edges = []\<rparr> ''1'' ''2'' [1, 2] [] [] []
        (Some [((1, 1), (2, 1))])
     = Inr (LinkAdded (Switch 1) (Switch 2),
            \<lparr>nodes = [Switch 1, Switch 2], edges = [(Switch 1, Switch 2)]\<rparr>,
            [((1, Some 1), (2, None))], [])
   \<and> \<not> carries_ports_of ((1, Some 1), (2, None)) ((1, 1), (2, 1))"
  by (simp add: matching_switch_fact_def add_link_def and_then_def visualize_example2
      carries_ports_of_def doubleton_eq_iff)

lemma visualize_topology_ignores_graph:
  "visualize_topology G1 switches links host_links = visualize_topology G2 switches links host_links"
  by (simp add: visualize_topology_def clear_def)

lemma drawn_visualize_topology:
  "drawn (visualize_topology G switches links host_links) switches links host_links"
  unfolding drawn_def by (rule visualize_topology_ignores_graph)

lemma link_edge_eq_iff:
  "link_edge link = {Switch a, Switch b} \<longleftrightarrow> {fst (fst link), fst (snd link)} = {a, b}"
  by (auto simp: link_edge_def doubleton_eq_iff)

lemma host_edge_eq_iff:
  "host_edge hl = {Switch b, Host s} \<longleftrightarrow> host_name hl = s \<and> switch_dpid hl = b"
  by (auto simp: host_edge_def doubleton_eq_iff)

lemma host_edge_not_switches:
  "host_edge hl \<noteq> {Switch a, Switch b}" "{Switch a, Switch b} \<noteq> host_edge hl"
  by (auto simp: host_edge_def doubleton_eq_iff)

lemma link_edge_not_host:
  "link_edge link \<noteq> {Switch b, Host s}" "{Switch b, Host s} \<noteq> link_edge link"
  by (auto simp: link_edge_def doubleton_eq_iff)

text \<open>Filtering out the records of an edge that is present and adding one back.\<close>

lemma refill_image:
  assumes "e \<in> f ` set xs" and "f y = e"
  shows "f ` set (filter (\<lambda>x. f x \<noteq> e) xs @ [y]) = f ` set xs"
  using assms by auto

text \<open>
  The replay loop draws the graph from the tracked collections before its first
  action, and both operations leave it so.
\<close>

lemma remove_link_keeps_drawn:
  assumes "drawn G switches links host_links"
    and "remove_link G source destination switches links host_links all_hosts
           = (m, G', links', host_links')"
  shows "drawn G' switches links' host_links'"
  using assms
  by (auto simp: remove_link_def Let_def drawn_visualize_topology
      split: sum.splits if_splits node.splits prod.splits)

lemma add_link_keeps_drawn:
  assumes "drawn G switches links host_links"
    and "add_link G source destination switches links host_links host_links_snapshot
           initial_switch_links = Inr (m, G', links', host_links')"
  shows "drawn G' switches links' host_links'"
  using assms
  by (auto simp: add_link_def Let_def drawn_visualize_topology
      split: sum.splits if_splits node.splits prod.splits option.splits)

lemma visualize_example:
  "visualize_topology G [1, 2] [((1, Some 1), (2, Some 1))]
      [\<lparr>host_name = ''h1'', host_mac = Some ''aa'', switch_dpid = 1, port_no = 3\<rparr>]
    = \<lparr>nodes = [Switch 1, Switch 2, Host ''h1''],
        edges = [(Switch 1, Switch 2), (Switch 1, Host ''h1'')]\<rparr>"
  by (simp add: visualize_topology_def clear_def add_node_def add_edge_def has_edge_def
      isolated_host_def startswith_h_def neighbors_def)

text \<open>
  C7. In the replay loop, where the graph is the one drawn from the tracked
  collections, a link-down of an edge that is in the ground truth and in the graph
  followed by a link-up of the same edge succeeds and gives a graph with the node set
  and the edge set the graph had before the link-down.
\<close>

theorem link_down_up_restores:
  assumes drawn: "drawn G switches links host_links"
    and src: "parse_node source = Inr src"
    and dst: "parse_node destination = Inr dst"
    and truth: "in_ground_truth facts host_links_snapshot src dst"
    and present: "has_edge G src dst"
    and down: "remove_link G source destination switches links host_links all_hosts
                 = (m1, G1, links1, host_links1)"
  shows "\<exists>G2 links2 host_links2.
           add_link G1 source destination switches links1 host_links1 host_links_snapshot
               (Some facts)
             = Inr (LinkAdded src dst, G2, links2, host_links2)
           \<and> node_set G2 = node_set G \<and> edge_set G2 = edge_set G"
proof -
  note pp = parse_pair [OF src dst]
  from drawn have G: "G = visualize_topology G switches links host_links"
    by (simp add: drawn_def)
  have nodesG: "node_set G = Switch ` set switches \<union> \<Union> (link_edge ` set links)
      \<union> \<Union> (host_edge ` set host_links)"
    by (subst G) (rule visualize_topology_nodes)
  have edgesG: "edge_set G = link_edge ` set links \<union> host_edge ` set host_links"
    by (subst G) (rule visualize_topology_edges)
  from present have e: "{src, dst} \<in> link_edge ` set links \<union> host_edge ` set host_links"
    by (simp add: has_edge_iff edgesG)
  show ?thesis
  proof (cases src; cases dst)
    fix a b assume sd: "src = Switch a" "dst = Switch b"
    let ?kept = "filter (\<lambda>link. {fst (fst link), fst (snd link)} \<noteq> {a, b}) links"
    from down pp present sd have l1: "links1 = ?kept" and h1: "host_links1 = host_links"
      by (simp_all add: remove_link_def Let_def)
    from truth sd obtain port where port: "find_switch_link facts a b = Some port"
      by (cases "find_switch_link facts a b")
         (auto simp: in_ground_truth_def find_switch_link_None_iff)
    let ?new = "((a, Some port), (b, None)) :: switch_link"
    from e sd have "{Switch a, Switch b} \<in> link_edge ` set links"
      using host_edge_not_switches by auto
    moreover have "link_edge ?new = {Switch a, Switch b}" by (simp add: link_edge_def)
    moreover have "?kept = filter (\<lambda>link. link_edge link \<noteq> {Switch a, Switch b}) links"
      by (simp add: link_edge_eq_iff)
    ultimately have img: "link_edge ` set (?kept @ [?new]) = link_edge ` set links"
      using refill_image [of "{Switch a, Switch b}" link_edge links ?new] by simp
    let ?G2 = "visualize_topology (add_edge src dst G1) switches (?kept @ [?new]) host_links"
    have "add_link G1 source destination switches links1 host_links1 host_links_snapshot
               (Some facts)
             = Inr (LinkAdded src dst, ?G2, ?kept @ [?new], host_links)"
      using pp sd port l1 h1 by (simp add: add_link_def Let_def)
    moreover have "node_set ?G2 = node_set G"
      unfolding visualize_topology_nodes nodesG img ..
    moreover have "edge_set ?G2 = edge_set G"
      unfolding visualize_topology_edges edgesG img ..
    ultimately show ?thesis by blast
  next
    fix s b assume sd: "src = Host s" "dst = Switch b"
    let ?kept = "filter (\<lambda>hl. \<not> (host_name hl = s \<and> switch_dpid hl = b)) host_links"
    from down pp present sd have l1: "links1 = links" and h1: "host_links1 = ?kept"
      by (simp_all add: remove_link_def Let_def)
    from truth sd obtain port where port: "find_host_link host_links_snapshot src dst = Some port"
      by (cases "find_host_link host_links_snapshot src dst")
         (auto simp: in_ground_truth_def find_host_link_None_iff)
    let ?new = "\<lparr>host_name = s, host_mac = None, switch_dpid = b, port_no = port\<rparr>"
    from e sd have "{Switch b, Host s} \<in> host_edge ` set host_links"
      using link_edge_not_host by (auto simp: insert_commute)
    moreover have "host_edge ?new = {Switch b, Host s}" by (simp add: host_edge_def)
    moreover have "?kept = filter (\<lambda>hl. host_edge hl \<noteq> {Switch b, Host s}) host_links"
      by (simp add: host_edge_eq_iff)
    ultimately have img: "host_edge ` set (?kept @ [?new]) = host_edge ` set host_links"
      using refill_image [of "{Switch b, Host s}" host_edge host_links ?new] by simp
    let ?G2 = "visualize_topology (add_edge src dst G1) switches links (?kept @ [?new])"
    have "add_link G1 source destination switches links1 host_links1 host_links_snapshot
               (Some facts)
             = Inr (LinkAdded src dst, ?G2, links, ?kept @ [?new])"
      using pp sd port l1 h1 by (simp add: add_link_def Let_def)
    moreover have "node_set ?G2 = node_set G"
      unfolding visualize_topology_nodes nodesG img ..
    moreover have "edge_set ?G2 = edge_set G"
      unfolding visualize_topology_edges edgesG img ..
    ultimately show ?thesis by blast
  next
    fix b s assume sd: "src = Switch b" "dst = Host s"
    let ?kept = "filter (\<lambda>hl. \<not> (host_name hl = s \<and> switch_dpid hl = b)) host_links"
    from down pp present sd have l1: "links1 = links" and h1: "host_links1 = ?kept"
      by (simp_all add: remove_link_def Let_def)
    from truth sd obtain port where port: "find_host_link host_links_snapshot src dst = Some port"
      by (cases "find_host_link host_links_snapshot src dst")
         (auto simp: in_ground_truth_def find_host_link_None_iff)
    let ?new = "\<lparr>host_name = s, host_mac = None, switch_dpid = b, port_no = port\<rparr>"
    from e sd have "{Switch b, Host s} \<in> host_edge ` set host_links"
      using link_edge_not_host by auto
    moreover have "host_edge ?new = {Switch b, Host s}" by (simp add: host_edge_def)
    moreover have "?kept = filter (\<lambda>hl. host_edge hl \<noteq> {Switch b, Host s}) host_links"
      by (simp add: host_edge_eq_iff)
    ultimately have img: "host_edge ` set (?kept @ [?new]) = host_edge ` set host_links"
      using refill_image [of "{Switch b, Host s}" host_edge host_links ?new] by simp
    let ?G2 = "visualize_topology (add_edge src dst G1) switches links (?kept @ [?new])"
    have "add_link G1 source destination switches links1 host_links1 host_links_snapshot
               (Some facts)
             = Inr (LinkAdded src dst, ?G2, links, ?kept @ [?new])"
      using pp sd port l1 h1 by (simp add: add_link_def Let_def)
    moreover have "node_set ?G2 = node_set G"
      unfolding visualize_topology_nodes nodesG img ..
    moreover have "edge_set ?G2 = edge_set G"
      unfolding visualize_topology_edges edgesG img ..
    ultimately show ?thesis by blast
  next
    fix s t assume "src = Host s" "dst = Host t"
    with truth show ?thesis by (simp add: in_ground_truth_def)
  qed
qed

theorem link_down_up_restores_witness:
  "drawn \<lparr>nodes = [Switch 1, Switch 2, Host ''h1''],
           edges = [(Switch 1, Switch 2), (Switch 1, Host ''h1'')]\<rparr>
      [1, 2] [((1, Some 1), (2, Some 1))]
      [\<lparr>host_name = ''h1'', host_mac = Some ''aa'', switch_dpid = 1, port_no = 3\<rparr>]
   \<and> parse_node ''h1'' = Inr (Host ''h1'') \<and> parse_node ''1'' = Inr (Switch 1)
   \<and> in_ground_truth [((1, 1), (2, 1))]
        [\<lparr>host_name = ''h1'', host_mac = Some ''aa'', switch_dpid = 1, port_no = 3\<rparr>]
        (Host ''h1'') (Switch 1)
   \<and> has_edge \<lparr>nodes = [Switch 1, Switch 2, Host ''h1''],
                edges = [(Switch 1, Switch 2), (Switch 1, Host ''h1'')]\<rparr> (Host ''h1'') (Switch 1)
   \<and> remove_link \<lparr>nodes = [Switch 1, Switch 2, Host ''h1''],
                   edges = [(Switch 1, Switch 2), (Switch 1, Host ''h1'')]\<rparr>
        ''h1'' ''1'' [1, 2] [((1, Some 1), (2, Some 1))]
        [\<lparr>host_name = ''h1'', host_mac = Some ''aa'', switch_dpid = 1, port_no = 3\<rparr>] [''h1'']
     = (LinkRemoved (Host ''h1'') (Switch 1),
        \<lparr>nodes = [Switch 1, Switch 2], edges = [(Switch 1, Switch 2)]\<rparr>,
        [((1, Some 1), (2, Some 1))], [])
   \<and> (\<exists>G2 links2 host_links2.
         add_link \<lparr>nodes = [Switch 1, Switch 2], edges = [(Switch 1, Switch 2)]\<rparr>
           ''h1'' ''1'' [1, 2] [((1, Some 1), (2, Some 1))] []
           [\<lparr>host_name = ''h1'', host_mac = Some ''aa'', switch_dpid = 1, port_no = 3\<rparr>]
           (Some [((1, 1), (2, 1))])
         = Inr (LinkAdded (Host ''h1'') (Switch 1), G2, links2, host_links2)
         \<and> node_set G2 = {Switch 1, Switch 2, Host ''h1''}
         \<and> edge_set G2 = {{Switch 1, Switch 2}, {Switch 1, Host ''h1''}})"
proof -
  let ?G = "\<lparr>nodes = [Switch 1, Switch 2, Host ''h1''],
             edges = [(Switch 1, Switch 2), (Switch 1, Host ''h1'')]\<rparr>"
  let ?H = "[\<lparr>host_name = ''h1'', host_mac = Some ''aa'', switch_dpid = 1, port_no = 3\<rparr>]"
  let ?L = "[((1, Some 1), (2, Some 1))] :: switch_link list"
  have drawn: "drawn ?G [1, 2] ?L ?H"
    by (simp add: drawn_def visualize_example)
  have src: "parse_node ''h1'' = Inr (Host ''h1'')" and dst: "parse_node ''1'' = Inr (Switch 1)"
    by simp_all
  have truth: "in_ground_truth [((1, 1), (2, 1))] ?H (Host ''h1'') (Switch 1)"
    by (simp add: in_ground_truth_def)
  have present: "has_edge ?G (Host ''h1'') (Switch 1)"
    by (simp add: has_edge_def)
  have down: "remove_link ?G ''h1'' ''1'' [1, 2] ?L ?H [''h1'']
     = (LinkRemoved (Host ''h1'') (Switch 1),
        \<lparr>nodes = [Switch 1, Switch 2], edges = [(Switch 1, Switch 2)]\<rparr>, ?L, [])"
    by (simp add: remove_link_def and_then_def has_edge_def visualize_topology_def clear_def
        add_node_def add_edge_def isolated_host_def)
  have sets: "node_set ?G = {Switch 1, Switch 2, Host ''h1''}"
    "edge_set ?G = {{Switch 1, Switch 2}, {Switch 1, Host ''h1''}}"
    by (simp_all add: node_set_def edge_set_def)
  from link_down_up_restores [OF drawn src dst truth present down] drawn src dst truth present
    down sets
  show ?thesis by simp
qed

section \<open>Properties of \<open>pingall\<close>\<close>

text \<open>The search of \<open>has_path\<close> returns exactly the nodes joined to the start by a path.\<close>

lemma neighbors_adjacency: "set (neighbors G u) = adjacency G `` {u}"
  by (force simp: neighbors_def adjacency_def has_edge_def)

lemma frontier_adjacency: "set (frontier G visited) = adjacency G `` set visited - set visited"
  by (auto simp: frontier_def neighbors_adjacency)

lemma reach_closure: "set (reach G visited) = (adjacency G)\<^sup>* `` set visited"
proof (induction G visited rule: reach.induct)
  case (1 G visited)
  let ?R = "adjacency G"
  show ?case
  proof (cases "frontier G visited = []")
    case True
    then have "?R `` set visited \<subseteq> set visited"
      using frontier_adjacency [of G visited] by auto
    then have "?R\<^sup>* `` set visited = set visited"
      by (rule Image_closed_trancl)
    with True show ?thesis by (simp add: reach.simps [of G visited])
  next
    case False
    have fr: "set (frontier G visited) \<subseteq> ?R\<^sup>* `` set visited"
      by (auto simp: frontier_adjacency)
    then have "?R\<^sup>* `` set (frontier G visited) \<subseteq> ?R\<^sup>* `` (?R\<^sup>* `` set visited)"
      by (rule Image_mono [OF subset_refl])
    also have "\<dots> = (?R\<^sup>* O ?R\<^sup>*) `` set visited"
      by (simp only: relcomp_Image)
    also have "\<dots> = ?R\<^sup>* `` set visited"
      by (simp only: rtrancl_idemp_self_comp)
    finally have "?R\<^sup>* `` set visited \<union> ?R\<^sup>* `` set (frontier G visited)
        = ?R\<^sup>* `` set visited"
      by (rule Un_absorb2)
    then have "?R\<^sup>* `` set (visited @ frontier G visited) = ?R\<^sup>* `` set visited"
      by (simp only: set_append Image_Un)
    with False 1 show ?thesis by (simp add: reach.simps [of G visited])
  qed
qed

lemma ping_ok_path_exists: "ping_ok G src dst \<longleftrightarrow> path_exists G (Host src) (Host dst)"
  by (auto simp: ping_ok_def path_exists_def has_path_def reach_closure)

text \<open>The two loops count the ordered pairs of distinct hosts that pass the test.\<close>

lemma ping_row_result:
  "ping_row G src dsts reachable successful
     = (reachable @ filter (\<lambda>dst. src \<noteq> dst \<and> ping_ok G src dst) dsts,
        successful + length (filter (\<lambda>dst. src \<noteq> dst \<and> ping_ok G src dst) dsts))"
  by (induction dsts arbitrary: reachable successful) auto

lemma ping_rows_result:
  "ping_rows G srcs hosts successful
     = (map (\<lambda>src. (src, filter (\<lambda>dst. src \<noteq> dst \<and> ping_ok G src dst) hosts)) srcs,
        successful + length (filter (\<lambda>(src, dst). src \<noteq> dst \<and> ping_ok G src dst)
                               (List.product srcs hosts)))"
  by (induction srcs arbitrary: successful)
     (auto simp: ping_row_result filter_map comp_def)

subsection \<open>Rounding to binary64\<close>

text \<open>
  \<open>bit_length\<close> and \<open>floor_log2\<close> find the binade of a positive rational.
\<close>

lemma bit_length_bounds: "0 < n \<Longrightarrow> 2 ^ (bit_length n - 1) \<le> n \<and> n < 2 ^ bit_length n"
proof (induction n rule: bit_length.induct)
  case (1 n)
  show ?case
  proof (cases "n div 2 = 0")
    case True
    with 1 have "n = 1" by (simp add: div_eq_0_iff) 
    then show ?thesis by (simp add: bit_length.simps [of "Suc 0"] bit_length.simps [of 0])
  next
    case False
    with 1 have IH: "2 ^ (bit_length (n div 2) - 1) \<le> n div 2" "n div 2 < 2 ^ bit_length (n div 2)"
      by auto
    from False have pos: "0 < bit_length (n div 2)"
      by (simp add: bit_length.simps [of "n div 2"])
    have eq: "bit_length n = Suc (bit_length (n div 2))"
      using 1(2) by (simp add: bit_length.simps [of n])
    from pos have "(2::nat) ^ (bit_length n - 1) = 2 * 2 ^ (bit_length (n div 2) - 1)"
      by (cases "bit_length (n div 2)") (simp_all add: eq)
    with IH(1) have "2 ^ (bit_length n - 1) \<le> n" by linarith
    moreover from IH(2) have "n < 2 ^ bit_length n" unfolding eq power_Suc by linarith
    ultimately show ?thesis ..
  qed
qed

lemma bit_length_pos: "0 < n \<Longrightarrow> 0 < bit_length n"
  by (simp add: bit_length.simps [of n])

lemma powi_nat_diff: "(2::rat) powi (int m - int n) = 2 ^ m / 2 ^ n"
  by (simp add: power_int_diff)

lemma floor_log2_correct:
  assumes "0 < x"
  shows "2 powi floor_log2 x \<le> x \<and> x < 2 powi (floor_log2 x + 1)"
proof -
  obtain p q where pq: "quotient_of x = (p, q)" by (cases "quotient_of x")
  then have q: "0 < q" by (rule quotient_of_denom_pos)
  from pq have x: "x = of_int p / of_int q" by (rule quotient_of_div)
  with assms q have p: "0 < p" by (simp add: zero_less_divide_iff)
  let ?a = "bit_length (nat p)" and ?b = "bit_length (nat q)"
  let ?d = "int ?a - int ?b"
  from p q have a: "0 < ?a" and b: "0 < ?b" by (simp_all add: bit_length_pos)
  from bit_length_bounds [of "nat p"] p have "nat p < 2 ^ ?a" by simp
  then have "int (nat p) < int (2 ^ ?a)" by (simp only: of_nat_less_iff)
  with p have pu: "of_int p < (2::rat) ^ ?a"
    by (metis int_nat_eq less_imp_le of_int_less_iff of_int_of_nat_eq of_nat_numeral of_nat_power) 
  from bit_length_bounds [of "nat q"] q have "2 ^ (?b - 1) \<le> nat q" by simp
  then have "int (2 ^ (?b - 1)) \<le> int (nat q)" by (simp only: of_nat_le_iff)
  with q have ql: "(2::rat) ^ (?b - 1) \<le> of_int q"
    by (metis int_nat_eq less_imp_le of_int_le_iff of_int_of_nat_eq of_nat_numeral of_nat_power)
  from bit_length_bounds [of "nat p"] p have "2 ^ (?a - 1) \<le> nat p" by simp
  then have "int (2 ^ (?a - 1)) \<le> int (nat p)" by (simp only: of_nat_le_iff)
  with p have pl: "(2::rat) ^ (?a - 1) \<le> of_int p"
    by (metis int_nat_eq less_imp_le of_int_le_iff of_int_of_nat_eq of_nat_numeral of_nat_power)
  from bit_length_bounds [of "nat q"] q have "nat q < 2 ^ ?b" by simp
  then have "int (nat q) < int (2 ^ ?b)" by (simp only: of_nat_less_iff)
  with q have qu: "of_int q < (2::rat) ^ ?b"
    by (metis int_nat_eq less_imp_le of_int_less_iff of_int_of_nat_eq of_nat_numeral of_nat_power)
  have qpos: "(0::rat) < of_int q" using q by simp
  have "?d + 1 = int ?a - int (?b - 1)" using b by simp
  then have "(2::rat) powi (?d + 1) = 2 ^ ?a / 2 ^ (?b - 1)"
    by (simp only: powi_nat_diff)
  moreover have "x < 2 ^ ?a / 2 ^ (?b - 1)"
  proof -
    have "x < 2 ^ ?a / of_int q" unfolding x using pu qpos by (simp add: divide_strict_right_mono)
    also have "\<dots> \<le> 2 ^ ?a / 2 ^ (?b - 1)" using ql by (simp add: frac_le)
    finally show ?thesis .
  qed
  ultimately have upper: "x < 2 powi (?d + 1)" by simp
  have "?d - 1 = int (?a - 1) - int ?b" using a by simp
  then have "(2::rat) powi (?d - 1) = 2 ^ (?a - 1) / 2 ^ ?b"
    by (simp only: powi_nat_diff)
  moreover have "2 ^ (?a - 1) / 2 ^ ?b < x"
  proof -
    have "(2::rat) ^ (?a - 1) / 2 ^ ?b < 2 ^ (?a - 1) / of_int q"
      using qu qpos by (simp add: divide_strict_left_mono)
    also have "\<dots> \<le> x" unfolding x using pl qpos by (simp add: divide_right_mono)
    finally show ?thesis .
  qed
  ultimately have lower: "2 powi (?d - 1) < x" by simp
  show ?thesis
    using upper lower pq by (auto simp: floor_log2_def Let_def)
qed


lemma floor_log2_eqI:
  assumes "0 < x" "2 powi e \<le> x" "x < 2 powi (e + 1)"
  shows "floor_log2 x = e"
proof -
  let ?f = "floor_log2 x"
  from floor_log2_correct [OF assms(1)] have f: "2 powi ?f \<le> x" "x < 2 powi (?f + 1)"
    by simp_all
  have "(2::rat) powi e < 2 powi (?f + 1)" using assms(2) f(2) by (rule le_less_trans)
  then have "e < ?f + 1"
    by (metis not_less power_int_increasing one_le_numeral)
  moreover have "(2::rat) powi ?f < 2 powi (e + 1)" using f(1) assms(3) by (rule le_less_trans)
  then have "?f < e + 1"
    by (metis not_less power_int_increasing one_le_numeral)
  ultimately show ?thesis by simp
qed

lemma floor_log2_less:
  assumes "0 < x" "x < 2 powi m"
  shows "floor_log2 x < m"
proof -
  from floor_log2_correct [OF assms(1)] have "2 powi floor_log2 x \<le> x" by simp
  then have "(2::rat) powi floor_log2 x < 2 powi m" using assms(2) by (rule le_less_trans)
  then show ?thesis by (metis not_less power_int_increasing one_le_numeral)
qed

lemma round_half_even_error: "\<bar>of_int (round_half_even y) - y\<bar> \<le> 1 / 2"
proof -
  have "of_int \<lfloor>y\<rfloor> \<le> y" "y < of_int \<lfloor>y\<rfloor> + 1" by linarith+
  then show ?thesis
    by (auto simp: round_half_even_def Let_def abs_le_iff)
qed

lemma round_half_even_eqI:
  assumes "\<bar>of_int m - y\<bar> < 1 / 2"
  shows "round_half_even y = m"
proof -
  let ?r = "round_half_even y"
  have "\<bar>of_int ?r - y\<bar> \<le> 1 / 2" by (rule round_half_even_error)
  with assms have "\<bar>(of_int ?r :: rat) - of_int m\<bar> < 1" by linarith
  then have "\<bar>of_int (?r - m) :: rat\<bar> < 1" by simp
  then have "\<bar>?r - m\<bar> < 1" by (metis of_int_abs of_int_less_1_iff) 
  then show ?thesis by simp
qed

lemma round_half_even_tie:
  "y = of_int f + 1 / 2 \<Longrightarrow> round_half_even y = (if even f then f else f + 1)"
proof -
  assume y: "y = of_int f + 1 / 2"
  then have "\<lfloor>y\<rfloor> = f" by linarith
  with y show ?thesis by (simp add: round_half_even_def Let_def)
qed

lemma binary64_error:
  assumes small: "\<bar>x\<bar> < 2 powi (53 - int K)" and K: "K \<le> 1074"
  shows "\<bar>binary64 x - x\<bar> \<le> 1 / 2 ^ (K + 1)"
proof (cases "x = 0")
  case True
  then show ?thesis by (simp add: binary64_def)
next
  case False
  define k where "k = min (52 - floor_log2 \<bar>x\<bar>) 1074"
  from False small have "floor_log2 \<bar>x\<bar> < 53 - int K"
    by (intro floor_log2_less) auto
  with K have kK: "int K \<le> k" by (simp add: k_def)
  have pos: "(0::rat) < 2 powi k" by simp
  have b: "binary64 x = of_int (round_half_even (x * 2 powi k)) / 2 powi k"
    using False by (simp add: binary64_def k_def Let_def)
  have "\<bar>binary64 x - x\<bar> = \<bar>of_int (round_half_even (x * 2 powi k)) - x * 2 powi k\<bar> / 2 powi k"
    using pos by (simp add: b field_simps abs_divide) 
  also have "\<dots> \<le> (1 / 2) / 2 powi k"
    using round_half_even_error [of "x * 2 powi k"] pos by (intro divide_right_mono) auto
  also have "\<dots> \<le> (1 / 2) / 2 powi (int K)"
    using kK by (intro divide_left_mono power_int_increasing) auto
  also have "\<dots> = 1 / 2 ^ (K + 1)" by simp
  finally show ?thesis .
qed

lemma binary64_value:
  assumes "2 powi e \<le> \<bar>x\<bar>" "\<bar>x\<bar> < 2 powi (e + 1)" "- 1022 \<le> e"
    and "\<bar>of_int m - x * 2 powi (52 - e)\<bar> < 1 / 2"
  shows "binary64 x = of_int m / 2 powi (52 - e)"
proof -
  from assms(1) have "0 < \<bar>x\<bar>" by (rule less_le_trans [OF zero_less_power_int, rotated]) simp
  then have nz: "x \<noteq> 0" by simp
  have "floor_log2 \<bar>x\<bar> = e" using \<open>0 < \<bar>x\<bar>\<close> assms(1,2) by (rule floor_log2_eqI)
  with assms(3) have "min (52 - floor_log2 \<bar>x\<bar>) 1074 = 52 - e" by simp
  with nz assms(4) show ?thesis
    by (simp add: binary64_def Let_def round_half_even_eqI)
qed

lemma binary64_tie:
  assumes "2 powi e \<le> \<bar>x\<bar>" "\<bar>x\<bar> < 2 powi (e + 1)" "- 1022 \<le> e"
    and "x * 2 powi (52 - e) = of_int f + 1 / 2"
  shows "binary64 x = of_int (if even f then f else f + 1) / 2 powi (52 - e)"
proof -
  from assms(1) have "0 < \<bar>x\<bar>" by (rule less_le_trans [OF zero_less_power_int, rotated]) simp
  then have nz: "x \<noteq> 0" by simp
  have "floor_log2 \<bar>x\<bar> = e" using \<open>0 < \<bar>x\<bar>\<close> assms(1,2) by (rule floor_log2_eqI)
  with assms(3) have "min (52 - floor_log2 \<bar>x\<bar>) 1074 = 52 - e" by simp
  with nz round_half_even_tie [OF assms(4)] show ?thesis
    by (simp add: binary64_def Let_def)
qed

subsection \<open>\<open>pingall\<close>: counts, reachability and packet loss\<close>

text \<open>
  Among the \<open>n * n\<close> ordered pairs of a list of \<open>n\<close> hosts at most \<open>n * (n - 1)\<close> are pairs
  of distinct hosts, so the quotient \<open>successful_pings / total_pings\<close> lies between 0 and 1.
\<close>

lemma filter_product_count:
  "length (filter (\<lambda>(x, y). Q x y) (List.product xs ys))
     = sum_list (map (\<lambda>x. length (filter (Q x) ys)) xs)"
  by (induction xs) (simp_all add: filter_map comp_def)

lemma distinct_pairs_bound:
  "length (filter (\<lambda>(src, dst). src \<noteq> dst \<and> P src dst) (List.product xs xs))
     \<le> length xs * (length xs - 1)"
proof -
  have row: "length (filter (\<lambda>dst. x \<noteq> dst \<and> P x dst) xs) \<le> length xs - 1" if "x \<in> set xs" for x
  proof -
    from that have "length (filter (\<lambda>dst. x \<noteq> dst \<and> P x dst) xs) < length xs"
      by (intro length_filter_less [of x]) auto
    then show ?thesis by simp
  qed
  have "sum_list (map (\<lambda>x. length (filter (\<lambda>dst. x \<noteq> dst \<and> P x dst) xs)) zs)
      \<le> length zs * (length xs - 1)" if "set zs \<subseteq> set xs" for zs
    using that
  proof (induction zs)
    case Nil
    show ?case by simp
  next
    case (Cons z zs)
    then have "z \<in> set xs" "set zs \<subseteq> set xs" by auto
    with Cons.IH row [of z] show ?case by simp
  qed
  from this [of xs] show ?thesis by (simp add: filter_product_count)
qed

text \<open>
  Three roundings lie between the exact quotient \<open>r\<close> and the reported loss: of the
  division (an error of at most \<open>2 powi (- 53)\<close>, the quotient being at most 1), of the
  product with 100 and of the difference from 100 (at most \<open>2 powi (- 47)\<close> each, both
  being below 128).
\<close>

lemma loss_rounding:
  fixes r :: rat
  assumes "0 \<le> r" "r \<le> 1"
  shows "\<bar>binary64 (100 - binary64 (binary64 r * 100)) - 100 * (1 - r)\<bar> \<le> 1 / 2 ^ 45"
proof -
  define q where "q = binary64 r"
  define m where "m = binary64 (q * 100)"
  define d where "d = binary64 (100 - m)"
  have "\<bar>r\<bar> < 2 powi (53 - int 52)" using assms by simp
  then have "\<bar>binary64 r - r\<bar> \<le> 1 / 2 ^ (52 + 1)" by (rule binary64_error) simp
  then have e1: "\<bar>q - r\<bar> \<le> 1 / 9007199254740992" by (simp add: q_def)
  with assms have "\<bar>q * 100\<bar> < 128" by linarith
  then have "\<bar>q * 100\<bar> < 2 powi (53 - int 46)" by simp
  then have "\<bar>binary64 (q * 100) - q * 100\<bar> \<le> 1 / 2 ^ (46 + 1)" by (rule binary64_error) simp
  then have e2: "\<bar>m - q * 100\<bar> \<le> 1 / 140737488355328" by (simp add: m_def)
  with e1 assms have "\<bar>100 - m\<bar> < 128" by linarith
  then have "\<bar>100 - m\<bar> < 2 powi (53 - int 46)" by simp
  then have "\<bar>binary64 (100 - m) - (100 - m)\<bar> \<le> 1 / 2 ^ (46 + 1)" by (rule binary64_error) simp
  then have e3: "\<bar>d - (100 - m)\<bar> \<le> 1 / 140737488355328" by (simp add: d_def)
  from e1 have a1: "q - r \<le> 1 / 9007199254740992" "r - q \<le> 1 / 9007199254740992"
    by linarith+
  from e2 have a2: "m - q * 100 \<le> 1 / 140737488355328" "q * 100 - m \<le> 1 / 140737488355328"
    by linarith+
  from e3 have a3: "d - (100 - m) \<le> 1 / 140737488355328" "(100 - m) - d \<le> 1 / 140737488355328"
    by linarith+
  from a1 a2 a3 have "d - 100 * (1 - r) \<le> 1 / 35184372088832"
    "- (d - 100 * (1 - r)) \<le> 1 / 35184372088832"
    by (simp_all add: algebra_simps)
  then have "\<bar>d - 100 * (1 - r)\<bar> \<le> 1 / 35184372088832"
    by (simp only: abs_le_iff)
  then show ?thesis by (simp add: d_def m_def q_def)
qed

lemma format_2f_error: "\<bar>rat_of_int (format_2f x) / 100 - x\<bar> \<le> 1 / 200"
proof -
  have "\<bar>rat_of_int (format_2f x) - x * 100\<bar> \<le> 1 / 2"
    unfolding format_2f_def by (rule round_half_even_error)
  then show ?thesis by (simp add: abs_le_iff field_simps)
qed

lemma pingall_rows:
  "rows (pingall G all_hosts)
     = map (\<lambda>src. (src, filter (\<lambda>dst. src \<noteq> dst \<and> path_exists G (Host src) (Host dst))
                            (sort all_hosts)))
         (sort all_hosts)"
  by (simp add: pingall_def Let_def ping_rows_result ping_ok_path_exists)

lemma successful_pairs_computed:
  "successful_pairs G hosts
     = filter (\<lambda>(src, dst). src \<noteq> dst \<and> ping_ok G src dst) (List.product hosts hosts)"
  by (simp add: successful_pairs_def ping_ok_path_exists)

text \<open>
  C6 (as amended). For every graph and every host list, \<open>pingall\<close> counts
  \<open>|hosts| * (|hosts| - 1)\<close> ordered pairs in total and counts as successful exactly the
  ordered pairs of distinct hosts joined by an undirected path in the graph. With fewer
  than two hosts the reported loss is 0. Otherwise it is the binary64 evaluation of
  \<open>100 - (successful / total) * 100\<close>, each of the three operations rounded to the
  nearest double, and it differs from \<open>100 * (1 - successful / total)\<close> by at most
  \<open>1 / 2 ^ 45\<close>; it is not always equal to it.
\<close>

theorem pingall_report:
  "total_pings (pingall G all_hosts)
     = int (length all_hosts) * (int (length all_hosts) - 1)
   \<and> successful_pings (pingall G all_hosts) = length (successful_pairs G (sort all_hosts))
   \<and> packet_loss_percentage (pingall G all_hosts)
     = (if length all_hosts < 2 then 0
        else binary64 (100 - binary64 (binary64
               (of_nat (length (successful_pairs G (sort all_hosts)))
                  / of_int (int (length all_hosts) * (int (length all_hosts) - 1))) * 100)))
   \<and> \<bar>packet_loss_percentage (pingall G all_hosts)
        - (if length all_hosts < 2 then 0
           else 100 * (1 - of_nat (length (successful_pairs G (sort all_hosts)))
                            / of_int (int (length all_hosts) * (int (length all_hosts) - 1))))\<bar>
       \<le> 1 / 2 ^ 45"
proof -
  let ?n = "length all_hosts"
  let ?t = "int ?n * (int ?n - 1)"
  let ?s = "length (successful_pairs G (sort all_hosts))"
  let ?r = "of_nat ?s / of_int ?t :: rat"
  have counts: "total_pings (pingall G all_hosts) = ?t"
    "successful_pings (pingall G all_hosts) = ?s"
    by (simp_all add: pingall_def Let_def ping_rows_result successful_pairs_def
        ping_ok_path_exists)
  have loss: "packet_loss_percentage (pingall G all_hosts)
      = (if ?t > 0 then binary64 (100 - binary64 (binary64 ?r * 100)) else 0)"
    by (simp add: pingall_def Let_def ping_rows_result successful_pairs_def
        ping_ok_path_exists)
  have pos: "?t > 0 \<longleftrightarrow> \<not> ?n < 2"
    by (cases "?n < 2") (auto simp: zero_less_mult_iff)
  show ?thesis
  proof (cases "?n < 2")
    case True
    with pos have "\<not> ?t > 0" by blast
    with loss have "packet_loss_percentage (pingall G all_hosts) = 0" by (simp only: if_False)
    with counts True show ?thesis by simp
  next
    case False
    with pos have t: "?t > 0" by blast
    with loss have l: "packet_loss_percentage (pingall G all_hosts)
        = binary64 (100 - binary64 (binary64 ?r * 100))" by (simp only: if_True)
    have "?s \<le> ?n * (?n - 1)"
      using distinct_pairs_bound [of "\<lambda>src dst. path_exists G (Host src) (Host dst)" "sort all_hosts"]
      by (simp add: successful_pairs_def)
    then have "int ?s \<le> int (?n * (?n - 1))" by (simp only: of_nat_le_iff)
    also have "int (?n * (?n - 1)) = ?t" using False by (simp add: of_nat_diff)
    finally have "(of_int (int ?s) :: rat) \<le> of_int ?t" by (simp only: of_int_le_iff)
    then have st: "(of_nat ?s :: rat) \<le> of_int ?t" by simp
    from t have tpos: "(0::rat) < of_int ?t" by (simp only: of_int_0_less_iff)
    have r0: "0 \<le> ?r" using tpos by (simp only: zero_le_divide_iff) simp
    have r1: "?r \<le> 1" using st tpos by (simp only: divide_le_eq_1_pos)
    from loss_rounding [OF r0 r1] l counts False show ?thesis by (simp only: if_False simp_thms)
  qed
qed

text \<open>
  The printed figure, \<open>{packet_loss_percentage:.2f}\<close>, is the reported loss rounded to
  hundredths, so it is within half a hundredth and \<open>1 / 2 ^ 45\<close> of the exact percentage.
\<close>

lemma printed_loss_rounding:
  "\<bar>rat_of_int (format_2f (packet_loss_percentage (pingall G all_hosts))) / 100
      - (if length all_hosts < 2 then 0
         else 100 * (1 - of_nat (length (successful_pairs G (sort all_hosts)))
                          / of_int (int (length all_hosts) * (int (length all_hosts) - 1))))\<bar>
     \<le> 1 / 200 + 1 / 2 ^ 45"
proof -
  let ?l = "packet_loss_percentage (pingall G all_hosts)"
  let ?x = "if length all_hosts < 2 then 0
         else 100 * (1 - of_nat (length (successful_pairs G (sort all_hosts)))
                          / of_int (int (length all_hosts) * (int (length all_hosts) - 1)))"
  have near: "\<bar>?l - ?x\<bar> \<le> 1 / 2 ^ 45"
  proof -
    have d: "\<bar>binary64 (100 - binary64 (binary64 r * 100)) - 100 * (1 - r)\<bar> \<le> 1 / 2 ^ 45"
      if "0 \<le> r" "r \<le> 1" for r :: rat
      using that by (rule loss_rounding)
    show ?thesis
    proof (cases "length all_hosts < 2")
      case True
      then have "\<not> int (length all_hosts) * (int (length all_hosts) - 1) > 0"
        by (auto simp: zero_less_mult_iff)
      with True show ?thesis
        by (simp add: pingall_def Let_def ping_rows_result)
    next
      case False
      let ?n = "length all_hosts"
      let ?s = "length (successful_pairs G (sort all_hosts))"
      let ?t = "int ?n * (int ?n - 1)"
      from False have t: "?t > 0" by (auto simp: zero_less_mult_iff)
      have "?s \<le> ?n * (?n - 1)"
        using distinct_pairs_bound [of "\<lambda>src dst. path_exists G (Host src) (Host dst)"
            "sort all_hosts"]
        by (simp add: successful_pairs_def)
      then have "int ?s \<le> int (?n * (?n - 1))" by (simp only: of_nat_le_iff)
      also have "int (?n * (?n - 1)) = ?t" using False by (simp add: of_nat_diff)
      finally have "(of_int (int ?s) :: rat) \<le> of_int ?t" by (simp only: of_int_le_iff)
      then have st: "(of_nat ?s :: rat) \<le> of_int ?t" by simp
      from t have tpos: "(0::rat) < of_int ?t" by (simp only: of_int_0_less_iff)
      have r0: "0 \<le> (of_nat ?s / of_int ?t :: rat)"
        using tpos by (simp only: zero_le_divide_iff) simp
      have r1: "(of_nat ?s / of_int ?t :: rat) \<le> 1"
        using st tpos by (simp only: divide_le_eq_1_pos)
      have "?l = binary64 (100 - binary64 (binary64 (of_nat ?s / of_int ?t) * 100))"
        using t by (simp add: pingall_def Let_def ping_rows_result successful_pairs_def
            ping_ok_path_exists)
      with d [OF r0 r1] False show ?thesis by (simp only: if_False)
    qed
  qed
  have "\<bar>of_int (format_2f ?l) / 100 - ?l\<bar> \<le> 1 / 200" by (rule format_2f_error)
  with near show ?thesis by linarith
qed

text \<open>
  The roundings met in the scenarios below: of 0, 1 and 100, which are doubles, and of
  the operations that \<open>pingall\<close> performs on 8 successful pairs of 30, and that the formula
  \<open>100 * (1 - 8 / 30)\<close> performs in the same arithmetic.
\<close>

lemma binary64_zero: "binary64 0 = 0"
  by (simp add: binary64_def)

lemma binary64_one: "binary64 1 = 1"
  using binary64_value [of 0 1 4503599627370496] by (simp add: power_int_minus)

lemma binary64_hundred: "binary64 100 = 100"
  using binary64_value [of 6 100 7036874417766400] by (simp add: power_int_minus)

lemma binary64_quotient: "binary64 (4 / 15) = 4803839602528529 / 18014398509481984"
  using binary64_value [of "- 2" "4 / 15" 4803839602528529] by (simp add: power_int_minus)

lemma binary64_percent:
  "binary64 (120095990063213225 / 4503599627370496) = 7505999378950827 / 281474976710656"
  using binary64_value [of 4 "120095990063213225 / 4503599627370496" 7505999378950827]
  by (simp add: power_int_minus)

lemma binary64_loss:
  "binary64 (20641498292114773 / 281474976710656) = 5160374573028693 / 70368744177664"
  using binary64_value [of 6 "20641498292114773 / 281474976710656" 5160374573028693]
  by (simp add: power_int_minus)

lemma binary64_complement:
  "binary64 (13210558906953455 / 18014398509481984) = 825659931684591 / 1125899906842624"
  using binary64_tie [of "- 1" "13210558906953455 / 18014398509481984" 6605279453476727]
  by (simp add: power_int_minus)

lemma binary64_complement_percent:
  "binary64 (20641498292114775 / 281474976710656) = 2580187286514347 / 35184372088832"
  using binary64_value [of 6 "20641498292114775 / 281474976710656" 5160374573028694]
  by (simp add: power_int_minus)

lemmas binary64_examples = binary64_zero binary64_one binary64_hundred binary64_quotient
  binary64_percent binary64_loss binary64_complement binary64_complement_percent

text \<open>
  The two pingall scenarios of the specification: two switches joined by a link with
  one host each, and the same topology after the link between the switches is taken
  down.
\<close>

lemma scenario_graph:
  "visualize_topology \<lparr>nodes = [], edges = []\<rparr> [1, 2] [((1, Some 1), (2, Some 1))]
      [\<lparr>host_name = ''h1'', host_mac = Some ''aa'', switch_dpid = 1, port_no = 3\<rparr>,
       \<lparr>host_name = ''h2'', host_mac = Some ''bb'', switch_dpid = 2, port_no = 3\<rparr>]
    = \<lparr>nodes = [Switch 1, Switch 2, Host ''h1'', Host ''h2''],
        edges = [(Switch 1, Switch 2), (Switch 1, Host ''h1''), (Switch 2, Host ''h2'')]\<rparr>"
  by code_simp

lemma sort_host_names:
  "sort [''h1'', ''h2''] = [''h1'', ''h2'']"
  "sort [''h1'', ''h2'', ''h3'', ''h4'', ''h5'', ''h6'']
     = [''h1'', ''h2'', ''h3'', ''h4'', ''h5'', ''h6'']"
  by code_simp+

theorem pingall_report_scenario:
  "pingall \<lparr>nodes = [Switch 1, Switch 2, Host ''h1'', Host ''h2''],
            edges = [(Switch 1, Switch 2), (Switch 1, Host ''h1''), (Switch 2, Host ''h2'')]\<rparr>
      [''h1'', ''h2'']
    = \<lparr>rows = [(''h1'', [''h2'']), (''h2'', [''h1''])], successful_pings = 2, total_pings = 2,
        packet_loss_percentage = 0\<rparr>
   \<and> length (successful_pairs \<lparr>nodes = [Switch 1, Switch 2, Host ''h1'', Host ''h2''],
            edges = [(Switch 1, Switch 2), (Switch 1, Host ''h1''), (Switch 2, Host ''h2'')]\<rparr>
        (sort [''h1'', ''h2''])) = 2"
proof -
  let ?G = "\<lparr>nodes = [Switch 1, Switch 2, Host ''h1'', Host ''h2''],
            edges = [(Switch 1, Switch 2), (Switch 1, Host ''h1''), (Switch 2, Host ''h2'')]\<rparr>"
  have loops: "ping_rows ?G [''h1'', ''h2''] [''h1'', ''h2''] 0
      = ([(''h1'', [''h2'']), (''h2'', [''h1''])], 2)"
    by code_simp
  have report: "pingall ?G [''h1'', ''h2'']
      = \<lparr>rows = [(''h1'', [''h2'']), (''h2'', [''h1''])], successful_pings = 2, total_pings = 2,
        packet_loss_percentage = 0\<rparr>"
    unfolding pingall_def Let_def sort_host_names loops
    by (simp add: binary64_examples)
  from pingall_report [of ?G "[''h1'', ''h2'']"] report show ?thesis
    by simp
qed

theorem pingall_partition_scenario:
  "remove_link \<lparr>nodes = [Switch 1, Switch 2, Host ''h1'', Host ''h2''],
            edges = [(Switch 1, Switch 2), (Switch 1, Host ''h1''), (Switch 2, Host ''h2'')]\<rparr>
      ''1'' ''2'' [1, 2] [((1, Some 1), (2, Some 1))]
      [\<lparr>host_name = ''h1'', host_mac = Some ''aa'', switch_dpid = 1, port_no = 3\<rparr>,
       \<lparr>host_name = ''h2'', host_mac = Some ''bb'', switch_dpid = 2, port_no = 3\<rparr>]
      [''h1'', ''h2'']
    = (LinkRemoved (Switch 1) (Switch 2),
       \<lparr>nodes = [Switch 1, Switch 2, Host ''h1'', Host ''h2''],
         edges = [(Switch 1, Host ''h1''), (Switch 2, Host ''h2'')]\<rparr>,
       [],
       [\<lparr>host_name = ''h1'', host_mac = Some ''aa'', switch_dpid = 1, port_no = 3\<rparr>,
        \<lparr>host_name = ''h2'', host_mac = Some ''bb'', switch_dpid = 2, port_no = 3\<rparr>])
   \<and> pingall \<lparr>nodes = [Switch 1, Switch 2, Host ''h1'', Host ''h2''],
         edges = [(Switch 1, Host ''h1''), (Switch 2, Host ''h2'')]\<rparr> [''h1'', ''h2'']
    = \<lparr>rows = [(''h1'', []), (''h2'', [])], successful_pings = 0, total_pings = 2,
        packet_loss_percentage = 100\<rparr>"
proof
  show "remove_link \<lparr>nodes = [Switch 1, Switch 2, Host ''h1'', Host ''h2''],
            edges = [(Switch 1, Switch 2), (Switch 1, Host ''h1''), (Switch 2, Host ''h2'')]\<rparr>
      ''1'' ''2'' [1, 2] [((1, Some 1), (2, Some 1))]
      [\<lparr>host_name = ''h1'', host_mac = Some ''aa'', switch_dpid = 1, port_no = 3\<rparr>,
       \<lparr>host_name = ''h2'', host_mac = Some ''bb'', switch_dpid = 2, port_no = 3\<rparr>]
      [''h1'', ''h2'']
    = (LinkRemoved (Switch 1) (Switch 2),
       \<lparr>nodes = [Switch 1, Switch 2, Host ''h1'', Host ''h2''],
         edges = [(Switch 1, Host ''h1''), (Switch 2, Host ''h2'')]\<rparr>,
       [],
       [\<lparr>host_name = ''h1'', host_mac = Some ''aa'', switch_dpid = 1, port_no = 3\<rparr>,
        \<lparr>host_name = ''h2'', host_mac = Some ''bb'', switch_dpid = 2, port_no = 3\<rparr>])"
    by code_simp
next
  let ?G = "\<lparr>nodes = [Switch 1, Switch 2, Host ''h1'', Host ''h2''],
         edges = [(Switch 1, Host ''h1''), (Switch 2, Host ''h2'')]\<rparr>"
  have loops: "ping_rows ?G [''h1'', ''h2''] [''h1'', ''h2''] 0
      = ([(''h1'', []), (''h2'', [])], 0)"
    by code_simp
  show "pingall ?G [''h1'', ''h2'']
    = \<lparr>rows = [(''h1'', []), (''h2'', [])], successful_pings = 0, total_pings = 2,
        packet_loss_percentage = 100\<rparr>"
    unfolding pingall_def Let_def sort_host_names loops
    by (simp add: binary64_examples)
qed

text \<open>
  Three switches without links between them, with three, two and one host: 8 of the 30
  ordered pairs are connected. \<open>pingall\<close> reports \<open>100 - (8 / 30) * 100\<close>, the double
  73.33333333333333, which is neither the number \<open>100 * (1 - 8 / 30)\<close> nor the double
  73.33333333333334 that the formula \<open>100 * (1 - 8 / 30)\<close> evaluates to.
\<close>

theorem pingall_report_counterexample:
  "pingall \<lparr>nodes = [Switch 1, Switch 2, Switch 3, Host ''h1'', Host ''h2'', Host ''h3'',
                       Host ''h4'', Host ''h5'', Host ''h6''],
            edges = [(Switch 1, Host ''h1''), (Switch 1, Host ''h2''), (Switch 1, Host ''h3''),
                     (Switch 2, Host ''h4''), (Switch 2, Host ''h5''), (Switch 3, Host ''h6'')]\<rparr>
      [''h1'', ''h2'', ''h3'', ''h4'', ''h5'', ''h6'']
    = \<lparr>rows = [(''h1'', [''h2'', ''h3'']), (''h2'', [''h1'', ''h3'']), (''h3'', [''h1'', ''h2'']),
               (''h4'', [''h5'']), (''h5'', [''h4'']), (''h6'', [])],
        successful_pings = 8, total_pings = 30,
        packet_loss_percentage = 5160374573028693 / 70368744177664\<rparr>
   \<and> (5160374573028693 / 70368744177664 :: rat) \<noteq> 100 * (1 - 8 / 30)
   \<and> binary64 (100 * binary64 (1 - binary64 (8 / 30))) = 2580187286514347 / 35184372088832
   \<and> (5160374573028693 / 70368744177664 :: rat) \<noteq> 2580187286514347 / 35184372088832"
proof -
  let ?G = "\<lparr>nodes = [Switch 1, Switch 2, Switch 3, Host ''h1'', Host ''h2'', Host ''h3'',
                       Host ''h4'', Host ''h5'', Host ''h6''],
            edges = [(Switch 1, Host ''h1''), (Switch 1, Host ''h2''), (Switch 1, Host ''h3''),
                     (Switch 2, Host ''h4''), (Switch 2, Host ''h5''), (Switch 3, Host ''h6'')]\<rparr>"
  let ?hs = "[''h1'', ''h2'', ''h3'', ''h4'', ''h5'', ''h6'']"
  have loops: "ping_rows ?G ?hs ?hs 0
      = ([(''h1'', [''h2'', ''h3'']), (''h2'', [''h1'', ''h3'']), (''h3'', [''h1'', ''h2'']),
               (''h4'', [''h5'']), (''h5'', [''h4'']), (''h6'', [])], 8)"
    by code_simp
  have "pingall ?G ?hs
    = \<lparr>rows = [(''h1'', [''h2'', ''h3'']), (''h2'', [''h1'', ''h3'']), (''h3'', [''h1'', ''h2'']),
               (''h4'', [''h5'']), (''h5'', [''h4'']), (''h6'', [])],
        successful_pings = 8, total_pings = 30,
        packet_loss_percentage = 5160374573028693 / 70368744177664\<rparr>"
    unfolding pingall_def Let_def sort_host_names loops
    by (simp add: binary64_examples)
  then show ?thesis by (simp add: binary64_examples)
qed

end
